theory Spec2Isabelle
  imports Complex_Main "HOL-Library.AList"
begin

section \<open>Data model (src/server/src/types/index.ts)\<close>

text \<open>
  Dates are milliseconds since the epoch (\<open>Date.getTime()\<close>), JavaScript numbers that
  hold counters, sizes and versions are integers, and an optional property is an
  \<open>option\<close> whose \<open>None\<close> is the absent property. Record fields carry the source's
  property names; a prefix is added where two interfaces share a name.
\<close>

datatype UserRole = READER | EDITOR | ADMIN

datatype UserTier = DEFAULT | PREMIUM

datatype ReportStatus = DRAFT | ACTIVE | ARCHIVED | DELETED

datatype ReportPriority = LOW | MEDIUM | HIGH | CRITICAL

record User =
  userId :: string
  email :: string
  userName :: string
  role :: UserRole
  tier :: UserTier
  password :: string
  userCreatedAt :: int
  userUpdatedAt :: int
  storageUsed :: int

record ReportEntry =
  entryId :: string
  entryTitle :: string
  entryContent :: string
  entryPriority :: ReportPriority
  entryStatus :: ReportStatus
  entryCreatedBy :: string
  entryCreatedAt :: int
  entryUpdatedAt :: int
  entryTags :: "string list"
  entryMetadata :: "(string \<times> string) list"

record ReportComment =
  commentId :: string
  commentContent :: string
  commentCreatedBy :: string
  commentCreatedAt :: int
  commentUpdatedAt :: int
  parentId :: "string option"

record Report =
  reportId :: string
  title :: string
  description :: string
  status :: ReportStatus
  priority :: ReportPriority
  createdBy :: string
  createdAt :: int
  updatedAt :: int
  lastModifiedBy :: string
  lastModifiedAt :: int
  collaborators :: "string list"
  concurrentEditors :: "string list"
  entries :: "ReportEntry list"
  comments :: "ReportComment list"
  tags :: "string list"
  metadata :: "(string \<times> string) list"
  version :: int
  isActive :: bool

text \<open>
  \<open>Partial<Report>\<close>: every property of a report, each of them optional. It is the type
  of the \<open>updates\<close> argument of the store and, at run time, of the JSON body of a PUT
  request (the validators of the route check the properties they know and strip none).
\<close>

record PartialReport =
  p_reportId :: "string option"
  p_title :: "string option"
  p_description :: "string option"
  p_status :: "ReportStatus option"
  p_priority :: "ReportPriority option"
  p_createdBy :: "string option"
  p_createdAt :: "int option"
  p_updatedAt :: "int option"
  p_lastModifiedBy :: "string option"
  p_lastModifiedAt :: "int option"
  p_collaborators :: "string list option"
  p_concurrentEditors :: "string list option"
  p_entries :: "ReportEntry list option"
  p_comments :: "ReportComment list option"
  p_tags :: "string list option"
  p_metadata :: "(string \<times> string) list option"
  p_version :: "int option"
  p_isActive :: "bool option"

datatype Action = ActRead | ActCreate | ActUpdate | ActDelete | ActUpload

text \<open>The side-channel \<open>resource\<close> of a rule context; uploads pass \<open>{fileSize: file.size}\<close>.\<close>

record Resource =
  fileSize :: "int option"

record BusinessRuleContext =
  user :: User
  report :: Report
  action :: Action
  resource :: "Resource option"

datatype ConstraintValue =
    CRole UserRole
  | CStatus ReportStatus
  | CTier UserTier
  | CNum int
  | CStr string
  | CStrs "string list"

record BusinessRuleResult =
  allowed :: bool
  reason :: "string option"
  constraints :: "(string \<times> ConstraintValue) list option"

text \<open>
  The error classes that the store and the handlers throw: \<open>ValidationError\<close> carries its
  list of field errors, \<open>NotFoundError\<close> the name of the resource, the others their
  message. \<open>OtherError\<close> is any exception that is not an \<open>AppError\<close>.
\<close>

datatype AppError =
    ValidationError "(string \<times> string) list"
  | AuthenticationError string
  | AuthorizationError string
  | NotFoundError string
  | ConflictError string
  | OtherError

section \<open>Configuration (src/server/src/config/index.ts)\<close>

text \<open>
  The configuration is read from the environment when the module loads; the values are
  parameters of the model and \<open>defaultConfig\<close> holds the fall-backs of the source.
\<close>

record Config =
  defaultUserQuota :: int
  premiumUserQuota :: int
  maxConcurrentEditors :: int
  autoArchiveDays :: int

definition defaultConfig :: Config where
  "defaultConfig =
     \<lparr> defaultUserQuota = 104857600, premiumUserQuota = 524288000,
       maxConcurrentEditors = 3, autoArchiveDays = 730 \<rparr>"

definition getUserQuota :: "Config \<Rightarrow> UserTier \<Rightarrow> int" where
  "getUserQuota cfg t = (if t = PREMIUM then premiumUserQuota cfg else defaultUserQuota cfg)"

section \<open>Business rules (src/server/src/services/businessRules.ts)\<close>

text \<open>Template literals print numbers in decimal.\<close>

fun showNat :: "nat \<Rightarrow> string" where
  "showNat n =
     (if n < 10 then [char_of (48 + n)]
      else showNat (n div 10) @ [char_of (48 + n mod 10)])"

definition showInt :: "int \<Rightarrow> string" where
  "showInt i = (if i < 0 then CHR ''-'' # showNat (nat (- i)) else showNat (nat i))"

definition allow :: BusinessRuleResult where
  "allow = \<lparr> allowed = True, reason = None, constraints = None \<rparr>"

text \<open>Rule 1: archived reports are edited by ADMIN users only.\<close>

definition checkReportLifecycleManagement :: "BusinessRuleContext \<Rightarrow> BusinessRuleResult" where
  "checkReportLifecycleManagement ctx =
     (if action ctx = ActUpdate \<and> status (report ctx) = ARCHIVED then
        (let ok = (role (user ctx) = ADMIN) in
         \<lparr> allowed = ok,
           reason = Some (if ok then [] else ''Only ADMIN users can edit archived reports''),
           constraints = Some [(''requiredRole'', CRole ADMIN),
                               (''currentStatus'', CStatus (status (report ctx)))] \<rparr>)
      else allow)"

text \<open>
  Rule 2: the attachment quota. The guard \<open>action === 'upload' && resource?.fileSize\<close>
  is a truthiness test: it fails for an absent resource, an absent size and the size 0.
\<close>

definition truthyNum :: "int option \<Rightarrow> bool" where
  "truthyNum v = (case v of None \<Rightarrow> False | Some n \<Rightarrow> n \<noteq> 0)"

definition resourceFileSize :: "BusinessRuleContext \<Rightarrow> int option" where
  "resourceFileSize ctx = (case resource ctx of None \<Rightarrow> None | Some r \<Rightarrow> fileSize r)"

definition checkAttachmentQuota :: "Config \<Rightarrow> BusinessRuleContext \<Rightarrow> BusinessRuleResult" where
  "checkAttachmentQuota cfg ctx =
     (if action ctx = ActUpload \<and> truthyNum (resourceFileSize ctx) then
        (let size = the (resourceFileSize ctx);
             userQuota = getUserQuota cfg (tier (user ctx));
             newTotalUsage = storageUsed (user ctx) + size;
             ok = (newTotalUsage \<le> userQuota) in
         \<lparr> allowed = ok,
           reason = Some (if ok then []
                          else ''Storage quota exceeded. Current: '' @ showInt (storageUsed (user ctx))
                               @ '', Quota: '' @ showInt userQuota),
           constraints = Some [(''currentUsage'', CNum (storageUsed (user ctx))),
                               (''fileSize'', CNum size),
                               (''quota'', CNum userQuota),
                               (''tier'', CTier (tier (user ctx)))] \<rparr>)
      else allow)"

text \<open>Rule 3: creator, collaborator or admin, and the bound on concurrent editors.\<close>

definition checkReportCollaboration :: "Config \<Rightarrow> BusinessRuleContext \<Rightarrow> BusinessRuleResult" where
  "checkReportCollaboration cfg ctx =
     (if action ctx = ActUpdate then
        (let u = user ctx; r = report ctx;
             isCreator = (createdBy r = userId u);
             isCollaborator = (userId u \<in> set (collaborators r));
             isAdmin = (role u = ADMIN) in
         if \<not> isCreator \<and> \<not> isCollaborator \<and> \<not> isAdmin then
           \<lparr> allowed = False,
             reason = Some ''Only the creator, assigned collaborators, or admins can edit this report'',
             constraints = Some [(''creator'', CStr (createdBy r)),
                                 (''collaborators'', CStrs (collaborators r)),
                                 (''userRole'', CRole (role u))] \<rparr>
         else
           (let isCurrentlyEditing = (userId u \<in> set (concurrentEditors r));
                wouldExceedLimit = (\<not> isCurrentlyEditing \<and>
                   int (length (concurrentEditors r)) \<ge> maxConcurrentEditors cfg) in
            if wouldExceedLimit then
              \<lparr> allowed = False,
                reason = Some (''Maximum of '' @ showInt (maxConcurrentEditors cfg)
                               @ '' concurrent editors allowed''),
                constraints = Some [(''currentEditors'', CNum (int (length (concurrentEditors r)))),
                                    (''maxEditors'', CNum (maxConcurrentEditors cfg))] \<rparr>
            else allow))
      else allow)"

text \<open>
  Rule 4: the retention policy. The rule reads the clock: \<open>now\<close> is \<open>Date.now()\<close> and
  \<open>twoYearsAgo\<close> is the same instant with its calendar year decreased by two.
\<close>

definition checkDataRetentionPolicy ::
  "Config \<Rightarrow> int \<Rightarrow> int \<Rightarrow> BusinessRuleContext \<Rightarrow> BusinessRuleResult" where
  "checkDataRetentionPolicy cfg now twoYearsAgo ctx =
     (let isOldReport = (createdAt (report ctx) < twoYearsAgo);
          isAdmin = (role (user ctx) = ADMIN) in
      if isOldReport \<and> action ctx = ActUpdate \<and> \<not> isAdmin then
        \<lparr> allowed = False,
          reason = Some ''Reports older than 2 years are read-only for non-admin users'',
          constraints = Some [(''reportAge'', CNum ((now - createdAt (report ctx)) div (1000 * 60 * 60 * 24))),
                              (''maxAge'', CNum (autoArchiveDays cfg)),
                              (''userRole'', CRole (role (user ctx)))] \<rparr>
      else allow)"

text \<open>The role floor: updates need the EDITOR or the ADMIN role.\<close>

definition checkGeneralEditPermissions :: "BusinessRuleContext \<Rightarrow> BusinessRuleResult" where
  "checkGeneralEditPermissions ctx =
     (if action ctx = ActUpdate \<and> \<not> (role (user ctx) = EDITOR \<or> role (user ctx) = ADMIN) then
        \<lparr> allowed = False,
          reason = Some ''Insufficient permissions. Minimum role required: editor'',
          constraints = Some [(''requiredRole'', CRole EDITOR),
                              (''userRole'', CRole (role (user ctx)))] \<rparr>
      else allow)"

text \<open>The chain: the rules in their order, the first denial wins.\<close>

fun firstDenial :: "(BusinessRuleContext \<Rightarrow> BusinessRuleResult) list \<Rightarrow> BusinessRuleContext
    \<Rightarrow> BusinessRuleResult" where
  "firstDenial [] ctx = allow"
| "firstDenial (rule # rules) ctx =
     (let result = rule ctx in if \<not> allowed result then result else firstDenial rules ctx)"

definition rules :: "Config \<Rightarrow> int \<Rightarrow> int \<Rightarrow> (BusinessRuleContext \<Rightarrow> BusinessRuleResult) list" where
  "rules cfg now twoYearsAgo =
     [checkReportLifecycleManagement,
      checkAttachmentQuota cfg,
      checkReportCollaboration cfg,
      checkDataRetentionPolicy cfg now twoYearsAgo,
      checkGeneralEditPermissions]"

definition evaluateAllRules ::
  "Config \<Rightarrow> int \<Rightarrow> int \<Rightarrow> BusinessRuleContext \<Rightarrow> BusinessRuleResult" where
  "evaluateAllRules cfg now twoYearsAgo ctx = firstDenial (rules cfg now twoYearsAgo) ctx"

definition shouldAutoArchive :: "int \<Rightarrow> Report \<Rightarrow> bool" where
  "shouldAutoArchive cutoffDate r = (createdAt r < cutoffDate \<and> status r \<noteq> ARCHIVED)"

section \<open>Roles (src/server/src/services/auth.ts)\<close>

definition roleHierarchy :: "UserRole \<Rightarrow> nat" where
  "roleHierarchy r = (case r of READER \<Rightarrow> 1 | EDITOR \<Rightarrow> 2 | ADMIN \<Rightarrow> 3)"

definition hasRole :: "User \<Rightarrow> UserRole \<Rightarrow> bool" where
  "hasRole u requiredRole = (roleHierarchy (role u) \<ge> roleHierarchy requiredRole)"

section \<open>The in-memory store (src/server/src/services/dataStore.ts)\<close>

text \<open>
  The store keeps its reports in a JavaScript \<open>Map\<close>, which iterates in insertion order:
  an association list, read with \<open>map_of\<close> and written with \<open>AList.update\<close> (an
  existing key keeps its place, a new key goes to the end). Every method is a function
  from the store to a result and the store afterwards; a thrown error is the \<open>Inl\<close>
  result. The clock (\<open>new Date()\<close>) and the fresh identifier (\<open>uuidv4()\<close>) are
  arguments. The maps of users and attachments are left out: no operation below reads
  or writes them.
\<close>

record AuditLog =
  auditId :: string
  auditUserId :: string
  auditAction :: string
  resourceType :: string
  resourceId :: string
  beforeState :: "Report option"
  afterState :: "Report option"
  timestamp :: int
  ipAddress :: string
  userAgent :: string

record InMemoryStore =
  reports :: "(string \<times> Report) list"
  auditLogs :: "AuditLog list"

definition createReport ::
  "InMemoryStore \<Rightarrow> Report \<Rightarrow> string \<Rightarrow> int \<Rightarrow> Report \<times> InMemoryStore" where
  "createReport s reportData uuid now =
     (let r = reportData\<lparr> reportId := uuid, createdAt := now, updatedAt := now,
                           version := 1, isActive := True \<rparr>
      in (r, s\<lparr> reports := AList.update (reportId r) r (reports s) \<rparr>))"

definition getReport :: "InMemoryStore \<Rightarrow> string \<Rightarrow> Report option" where
  "getReport s i =
     (case map_of (reports s) i of
        None \<Rightarrow> None
      | Some r \<Rightarrow> if \<not> isActive r then None else Some r)"

text \<open>The object spread \<open>{...report, ...updates}\<close>: a property present in the updates wins.\<close>

definition spread :: "'a \<Rightarrow> 'a option \<Rightarrow> 'a" where
  "spread old new = (case new of None \<Rightarrow> old | Some v \<Rightarrow> v)"

definition applyUpdates :: "Report \<Rightarrow> PartialReport \<Rightarrow> Report" where
  "applyUpdates r u =
     \<lparr> reportId = spread (reportId r) (p_reportId u),
       title = spread (title r) (p_title u),
       description = spread (description r) (p_description u),
       status = spread (status r) (p_status u),
       priority = spread (priority r) (p_priority u),
       createdBy = spread (createdBy r) (p_createdBy u),
       createdAt = spread (createdAt r) (p_createdAt u),
       updatedAt = spread (updatedAt r) (p_updatedAt u),
       lastModifiedBy = spread (lastModifiedBy r) (p_lastModifiedBy u),
       lastModifiedAt = spread (lastModifiedAt r) (p_lastModifiedAt u),
       collaborators = spread (collaborators r) (p_collaborators u),
       concurrentEditors = spread (concurrentEditors r) (p_concurrentEditors u),
       entries = spread (entries r) (p_entries u),
       comments = spread (comments r) (p_comments u),
       tags = spread (tags r) (p_tags u),
       metadata = spread (metadata r) (p_metadata u),
       version = spread (version r) (p_version u),
       isActive = spread (isActive r) (p_isActive u) \<rparr>"

text \<open>
  \<open>updateReport\<close>. The concurrency check is
  \<open>if (updates.version && updates.version !== report.version)\<close>: its first conjunct is
  the truthiness of a number, false for an absent version and for the version 0.
\<close>

definition updateReport ::
  "InMemoryStore \<Rightarrow> string \<Rightarrow> PartialReport \<Rightarrow> string \<Rightarrow> int
     \<Rightarrow> (AppError + Report) \<times> InMemoryStore" where
  "updateReport s i updates uid now =
     (case map_of (reports s) i of
        None \<Rightarrow> (Inl (NotFoundError ''Report''), s)
      | Some r \<Rightarrow>
          if \<not> isActive r then (Inl (NotFoundError ''Report''), s)
          else if truthyNum (p_version updates) \<and> p_version updates \<noteq> Some (version r)
          then (Inl (ConflictError ''Report has been modified by another user''), s)
          else
            (let updatedReport = (applyUpdates r updates)
                   \<lparr> updatedAt := now, lastModifiedBy := uid, lastModifiedAt := now,
                     version := version r + 1 \<rparr>
             in (Inr updatedReport, s\<lparr> reports := AList.update i updatedReport (reports s) \<rparr>)))"

definition deleteReport ::
  "InMemoryStore \<Rightarrow> string \<Rightarrow> int \<Rightarrow> (AppError + unit) \<times> InMemoryStore" where
  "deleteReport s i now =
     (case map_of (reports s) i of
        None \<Rightarrow> (Inl (NotFoundError ''Report''), s)
      | Some r \<Rightarrow>
          (Inr (), s\<lparr> reports :=
             AList.update i (r\<lparr> isActive := False, status := DELETED, updatedAt := now \<rparr>)
               (reports s) \<rparr>))"

definition addAuditLog :: "InMemoryStore \<Rightarrow> AuditLog \<Rightarrow> string \<Rightarrow> int \<Rightarrow> InMemoryStore" where
  "addAuditLog s entry uuid now =
     (let logs = auditLogs s @ [entry\<lparr> auditId := uuid, timestamp := now \<rparr>]
      in s\<lparr> auditLogs := (if length logs > 1000 then drop (length logs - 1000) logs else logs) \<rparr>)"

text \<open>
  \<open>autoArchiveOldReports\<close> walks a snapshot of the active reports. For each one that
  \<open>shouldAutoArchive\<close> it assigns \<open>status\<close> and \<open>updatedAt\<close> on the stored object
  (the entry under the key it was read from) and then calls
  \<open>this.reports.set(report.id, report)\<close>. \<open>cutoffDate\<close> is the clock moved back by
  \<open>autoArchiveDays\<close> days.
\<close>

definition archiveEntry ::
  "int \<Rightarrow> int \<Rightarrow> string \<times> Report \<Rightarrow> (string \<times> Report) list \<Rightarrow> (string \<times> Report) list" where
  "archiveEntry now cutoffDate kr m =
     (if shouldAutoArchive cutoffDate (snd kr) then
        (let r' = (snd kr)\<lparr> status := ARCHIVED, updatedAt := now \<rparr>
         in AList.update (reportId r') r' (AList.update (fst kr) r' m))
      else m)"

definition autoArchiveOldReports :: "InMemoryStore \<Rightarrow> int \<Rightarrow> int \<Rightarrow> InMemoryStore" where
  "autoArchiveOldReports s now cutoffDate =
     s\<lparr> reports :=
         fold (archiveEntry now cutoffDate) (filter (\<lambda>kr. isActive (snd kr)) (reports s)) (reports s) \<rparr>"

text \<open>The sample data of the constructor (entries and comments of the first report included).\<close>

definition sampleReport1 :: Report where
  "sampleReport1 =
     \<lparr> reportId = ''report-1'', title = ''Q1 Financial Report'',
       description = ''Comprehensive financial analysis for Q1 2024'',
       status = ACTIVE, priority = HIGH, createdBy = ''user-2'',
       createdAt = 1705276800000, updatedAt = 1705708800000,
       lastModifiedBy = ''user-2'', lastModifiedAt = 1705708800000,
       collaborators = [''user-1''], concurrentEditors = [],
       entries =
         [\<lparr> entryId = ''entry-1'', entryTitle = ''Revenue Analysis'',
            entryContent = ''Revenue increased by 15% compared to last quarter'',
            entryPriority = HIGH, entryStatus = ACTIVE, entryCreatedBy = ''user-2'',
            entryCreatedAt = 1705276800000, entryUpdatedAt = 1705276800000,
            entryTags = [''finance'', ''revenue''],
            entryMetadata = [(''department'', ''finance'')] \<rparr>,
          \<lparr> entryId = ''entry-2'', entryTitle = ''Cost Analysis'',
            entryContent = ''Operating costs reduced by 8% through efficiency improvements'',
            entryPriority = MEDIUM, entryStatus = ACTIVE, entryCreatedBy = ''user-2'',
            entryCreatedAt = 1705363200000, entryUpdatedAt = 1705363200000,
            entryTags = [''finance'', ''costs''],
            entryMetadata = [(''department'', ''operations'')] \<rparr>],
       comments =
         [\<lparr> commentId = ''comment-1'', commentContent = ''Excellent work on the revenue analysis'',
            commentCreatedBy = ''user-1'', commentCreatedAt = 1705449600000,
            commentUpdatedAt = 1705449600000, parentId = None \<rparr>],
       tags = [''finance'', ''quarterly'', ''analysis''],
       metadata = [(''fiscalYear'', ''2024''), (''quarter'', ''1'')],
       version = 1, isActive = True \<rparr>"

definition sampleReport2 :: Report where
  "sampleReport2 =
     \<lparr> reportId = ''report-2'', title = ''Old Archived Report'',
       description = ''This is an old report that should be archived'',
       status = ARCHIVED, priority = LOW, createdBy = ''user-2'',
       createdAt = 1640995200000, updatedAt = 1640995200000,
       lastModifiedBy = ''user-2'', lastModifiedAt = 1640995200000,
       collaborators = [], concurrentEditors = [], entries = [], comments = [],
       tags = [''archived'', ''old''], metadata = [],
       version = 1, isActive = True \<rparr>"

definition initialStore :: InMemoryStore where
  "initialStore =
     \<lparr> reports = [(''report-1'', sampleReport1), (''report-2'', sampleReport2)],
       auditLogs = [] \<rparr>"

section \<open>The report endpoints (controllers/reports.ts, routes/reports.ts, middleware/auth.ts)\<close>

text \<open>
  A request carries what the handlers read: the path parameter, the JSON body, the
  authenticated user and the result of the route's validators. A response is the status
  code and the fields of the JSON envelope; \<open>dataReport\<close> is the report the \<open>data\<close>
  property is built from. One clock reading serves a whole request.
\<close>

record PutRequest =
  paramId :: string
  body :: PartialReport
  putUser :: "User option"
  putValidationErrors :: "(string \<times> string) list"
  putIp :: string
  putUserAgent :: string

record PostRequest =
  c_title :: string
  c_description :: string
  c_priority :: ReportPriority
  c_tags :: "string list option"
  c_collaborators :: "string list option"
  c_metadata :: "(string \<times> string) list option"
  postUser :: "User option"
  postValidationErrors :: "(string \<times> string) list"
  postIp :: string
  postUserAgent :: string

record HttpResponse =
  statusCode :: int
  success :: bool
  message :: string
  errors :: "(string \<times> string) list"
  dataReport :: "Report option"

definition errorMessage :: "AppError \<Rightarrow> string" where
  "errorMessage e =
     (case e of
        ValidationError errs \<Rightarrow> ''Validation failed''
      | AuthenticationError m \<Rightarrow> m
      | AuthorizationError m \<Rightarrow> m
      | NotFoundError res \<Rightarrow> res @ '' not found''
      | ConflictError m \<Rightarrow> m
      | OtherError \<Rightarrow> [])"

definition failure :: "int \<Rightarrow> string \<Rightarrow> (string \<times> string) list \<Rightarrow> HttpResponse" where
  "failure code msg errs =
     \<lparr> statusCode = code, success = False, message = msg, errors = errs, dataReport = None \<rparr>"

text \<open>\<open>reason || fallback\<close>: an absent or empty reason gives the fall-back text.\<close>

definition orElse :: "string option \<Rightarrow> string \<Rightarrow> string" where
  "orElse r d = (case r of None \<Rightarrow> d | Some m \<Rightarrow> if m = [] then d else m)"

definition roleName :: "UserRole \<Rightarrow> string" where
  "roleName r = (case r of READER \<Rightarrow> ''reader'' | EDITOR \<Rightarrow> ''editor'' | ADMIN \<Rightarrow> ''admin'')"

text \<open>\<open>requireMinRole\<close>: \<open>None\<close> is the call of \<open>next()\<close>, a response ends the request.\<close>

definition requireMinRole :: "UserRole \<Rightarrow> User option \<Rightarrow> HttpResponse option" where
  "requireMinRole minimumRole u =
     (case u of
        None \<Rightarrow> Some (failure 401 ''Authentication required''
                        [(''authorization'', ''Authentication required'')])
      | Some usr \<Rightarrow>
          if \<not> hasRole usr minimumRole then
            (let m = ''Insufficient permissions. Minimum role required: '' @ roleName minimumRole
             in Some (failure 403 m [(''authorization'', m)]))
          else None)"

text \<open>
  \<open>ReportsController.updateReport\<close>: the \<open>try\<close> block, whose result is the response it
  sends or the error it throws, and the \<open>catch\<close> block, which turns the error into a
  response. The handler runs behind \<open>authenticateToken\<close> and \<open>requireMinRole\<close>, so
  \<open>req.user!\<close> is present; without a user the first read of a property of the user
  throws a \<open>TypeError\<close>.
\<close>

definition tryUpdateReport ::
  "Config \<Rightarrow> InMemoryStore \<Rightarrow> PutRequest \<Rightarrow> int \<Rightarrow> int \<Rightarrow> string
     \<Rightarrow> (AppError + HttpResponse) \<times> InMemoryStore" where
  "tryUpdateReport cfg s req now twoYearsAgo uuid =
     (if putValidationErrors req \<noteq> [] then (Inl (ValidationError (putValidationErrors req)), s)
      else
        (case getReport s (paramId req) of
           None \<Rightarrow> (Inl (NotFoundError ''Report''), s)
         | Some currentReport \<Rightarrow>
        (case putUser req of
           None \<Rightarrow> (Inl OtherError, s)
         | Some usr \<Rightarrow>
             (let businessRuleResult = evaluateAllRules cfg now twoYearsAgo
                    \<lparr> user = usr, report = currentReport, action = ActUpdate, resource = None \<rparr>
              in if \<not> allowed businessRuleResult then
                   (Inl (AuthorizationError
                           (orElse (reason businessRuleResult) ''Update not allowed'')), s)
                 else
                   (let beforeState = currentReport;
                        updates = (body req)\<lparr> p_version := Some (version currentReport) \<rparr>
                    in case updateReport s (paramId req) updates (userId usr) now of
                         (Inl e, s1) \<Rightarrow> (Inl e, s1)
                       | (Inr updatedReport, s1) \<Rightarrow>
                           (Inr \<lparr> statusCode = 200, success = True,
                                  message = ''Report updated successfully'', errors = [],
                                  dataReport = Some updatedReport \<rparr>,
                            addAuditLog s1
                              \<lparr> auditId = [], auditUserId = userId usr, auditAction = ''update'',
                                resourceType = ''report'', resourceId = paramId req,
                                beforeState = Some beforeState, afterState = Some updatedReport,
                                timestamp = 0, ipAddress = putIp req,
                                userAgent = putUserAgent req \<rparr> uuid now))))))"

definition catchUpdateReport :: "AppError \<Rightarrow> HttpResponse" where
  "catchUpdateReport e =
     (case e of
        ValidationError errs \<Rightarrow> failure 400 ''Validation failed'' errs
      | NotFoundError res \<Rightarrow> failure 404 (errorMessage e) [(''id'', errorMessage e)]
      | ConflictError m \<Rightarrow>
          failure 409 m [(''version'', ''Report has been modified by another user'')]
      | AuthorizationError m \<Rightarrow> failure 403 m [(''authorization'', m)]
      | _ \<Rightarrow> failure 500 ''Failed to update report'' [(''general'', ''Internal server error'')])"

definition ctlUpdateReport ::
  "Config \<Rightarrow> InMemoryStore \<Rightarrow> PutRequest \<Rightarrow> int \<Rightarrow> int \<Rightarrow> string \<Rightarrow> HttpResponse \<times> InMemoryStore" where
  "ctlUpdateReport cfg s req now twoYearsAgo uuid =
     (case tryUpdateReport cfg s req now twoYearsAgo uuid of
        (Inl e, s') \<Rightarrow> (catchUpdateReport e, s')
      | (Inr response, s') \<Rightarrow> (response, s'))"

text \<open>
  \<open>ReportsController.createReport\<close>. The rule context is built with \<open>{} as Report\<close>, an
  object with no property at all; \<open>emptyReport\<close> stands for it. The rules read none of
  its properties in a way that matters for the action \<open>create\<close>: every rule answers
  \<open>allow\<close> for that action whatever the report is. The side effect scheduled with
  \<open>setImmediate\<close> runs after the response and is modelled on its own.
\<close>

definition emptyReport :: Report where
  "emptyReport =
     \<lparr> reportId = [], title = [], description = [], status = DRAFT, priority = LOW,
       createdBy = [], createdAt = 0, updatedAt = 0, lastModifiedBy = [], lastModifiedAt = 0,
       collaborators = [], concurrentEditors = [], entries = [], comments = [], tags = [],
       metadata = [], version = 0, isActive = False \<rparr>"

definition tryCreateReport ::
  "Config \<Rightarrow> InMemoryStore \<Rightarrow> PostRequest \<Rightarrow> int \<Rightarrow> int \<Rightarrow> string \<Rightarrow> string
     \<Rightarrow> (AppError + HttpResponse) \<times> InMemoryStore" where
  "tryCreateReport cfg s req now twoYearsAgo uuidReport uuidAudit =
     (if postValidationErrors req \<noteq> [] then (Inl (ValidationError (postValidationErrors req)), s)
      else
        (case postUser req of
           None \<Rightarrow> (Inl OtherError, s)
         | Some usr \<Rightarrow>
             (let businessRuleResult = evaluateAllRules cfg now twoYearsAgo
                    \<lparr> user = usr, report = emptyReport, action = ActCreate, resource = None \<rparr>
              in if \<not> allowed businessRuleResult then
                   (Inl (AuthorizationError
                           (orElse (reason businessRuleResult) ''Creation not allowed'')), s)
                 else
                   (let (r, s1) = createReport s
                          \<lparr> reportId = [], title = c_title req, description = c_description req,
                            status = DRAFT, priority = c_priority req, createdBy = userId usr,
                            createdAt = 0, updatedAt = 0,
                            lastModifiedBy = userId usr, lastModifiedAt = now,
                            collaborators = spread [] (c_collaborators req),
                            concurrentEditors = [], entries = [], comments = [],
                            tags = spread [] (c_tags req),
                            metadata = spread [] (c_metadata req),
                            version = 0, isActive = False \<rparr> uuidReport now
                    in (Inr \<lparr> statusCode = 201, success = True,
                              message = ''Report created successfully'', errors = [],
                              dataReport = Some r \<rparr>,
                        addAuditLog s1
                          \<lparr> auditId = [], auditUserId = userId usr, auditAction = ''create'',
                            resourceType = ''report'', resourceId = reportId r,
                            beforeState = None, afterState = Some r,
                            timestamp = 0, ipAddress = postIp req,
                            userAgent = postUserAgent req \<rparr> uuidAudit now)))))"

definition catchCreateReport :: "AppError \<Rightarrow> HttpResponse" where
  "catchCreateReport e =
     (case e of
        ValidationError errs \<Rightarrow> failure 400 ''Validation failed'' errs
      | AuthorizationError m \<Rightarrow> failure 403 m [(''authorization'', m)]
      | _ \<Rightarrow> failure 500 ''Failed to create report'' [(''general'', ''Internal server error'')])"

definition ctlCreateReport ::
  "Config \<Rightarrow> InMemoryStore \<Rightarrow> PostRequest \<Rightarrow> int \<Rightarrow> int \<Rightarrow> string \<Rightarrow> string
     \<Rightarrow> HttpResponse \<times> InMemoryStore" where
  "ctlCreateReport cfg s req now twoYearsAgo uuidReport uuidAudit =
     (case tryCreateReport cfg s req now twoYearsAgo uuidReport uuidAudit of
        (Inl e, s') \<Rightarrow> (catchCreateReport e, s')
      | (Inr response, s') \<Rightarrow> (response, s'))"

text \<open>The routes \<open>PUT /api/reports/:id\<close> and \<open>POST /api/reports\<close>: the role check, then the handler.\<close>

definition putReport ::
  "Config \<Rightarrow> InMemoryStore \<Rightarrow> PutRequest \<Rightarrow> int \<Rightarrow> int \<Rightarrow> string \<Rightarrow> HttpResponse \<times> InMemoryStore" where
  "putReport cfg s req now twoYearsAgo uuid =
     (case requireMinRole EDITOR (putUser req) of
        Some denied \<Rightarrow> (denied, s)
      | None \<Rightarrow> ctlUpdateReport cfg s req now twoYearsAgo uuid)"

definition postReport ::
  "Config \<Rightarrow> InMemoryStore \<Rightarrow> PostRequest \<Rightarrow> int \<Rightarrow> int \<Rightarrow> string \<Rightarrow> string
     \<Rightarrow> HttpResponse \<times> InMemoryStore" where
  "postReport cfg s req now twoYearsAgo uuidReport uuidAudit =
     (case requireMinRole EDITOR (postUser req) of
        Some denied \<Rightarrow> (denied, s)
      | None \<Rightarrow> ctlCreateReport cfg s req now twoYearsAgo uuidReport uuidAudit)"

section \<open>Asynchronous side effects (utils/retry.ts)\<close>

text \<open>
  The operation is a thunk that resolves or rejects each time it is called; the
  environment of one call of \<open>executeAsyncSideEffect\<close> gives the outcome of the
  \<open>i\<close>-th invocation, the clock reading \<open>Date.now()\<close> in the \<open>catch\<close> block of attempt
  \<open>i\<close>, the draw of \<open>Math.random()\<close> for the delay after attempt \<open>i\<close> (a real number in
  \<open>[0, 1)\<close>) and the clock reading at the breaker check. Delays are real numbers of
  milliseconds. The result records what the call returned, the breaker state it left,
  how often the operation ran and the delays it waited.
\<close>

datatype 'a Outcome = Resolved 'a | Rejected

record RetryOptions =
  maxRetries :: "int option"
  backoffMs :: "real option"
  jitter :: "bool option"
  circuitBreakerThreshold :: "int option"
  circuitBreakerResetMs :: "int option"

record CircuitBreakerState =
  failures :: nat
  isOpen :: bool
  lastFailureTime :: int

record 'a Environment =
  operation :: "nat \<Rightarrow> 'a Outcome"
  failedAt :: "nat \<Rightarrow> int"
  randomAt :: "nat \<Rightarrow> real"
  startedAt :: int

record 'a Execution =
  result :: "'a option"
  breaker :: CircuitBreakerState
  invocations :: nat
  delays :: "real list"

text \<open>\<open>options?.field ?? dflt\<close>.\<close>

definition optionOr :: "RetryOptions option \<Rightarrow> (RetryOptions \<Rightarrow> 'v option) \<Rightarrow> 'v \<Rightarrow> 'v" where
  "optionOr options field dflt =
     (case options of
        None \<Rightarrow> dflt
      | Some opts \<Rightarrow> (case field opts of None \<Rightarrow> dflt | Some v \<Rightarrow> v))"

text \<open>The delay before the retry that follows the failed attempt \<open>i\<close>.\<close>

definition backoffDelay :: "real \<Rightarrow> nat \<Rightarrow> bool \<Rightarrow> real \<Rightarrow> real" where
  "backoffDelay backoff i jit rnd =
     (let delay = backoff * 2 ^ i in if jit then delay * (0.5 + rnd) else delay)"

text \<open>The \<open>catch\<close> block's update of the breaker: count the failure, stamp it, open at the threshold.\<close>

definition recordFailure :: "int \<Rightarrow> int \<Rightarrow> CircuitBreakerState \<Rightarrow> CircuitBreakerState" where
  "recordFailure threshold t cb =
     (let cb1 = cb\<lparr> failures := failures cb + 1, lastFailureTime := t \<rparr>
      in if int (failures cb1) \<ge> threshold \<and> \<not> isOpen cb1 then cb1\<lparr> isOpen := True \<rparr> else cb1)"

text \<open>
  The loop \<open>for (let i = 0; i <= maxRetries; i++)\<close>: the first numeric argument counts the
  iterations that are left, the second is \<open>i\<close>; \<open>i < maxRetries\<close> holds exactly when an
  iteration is left after this one.
\<close>

fun retryLoop ::
  "'a Environment \<Rightarrow> real \<Rightarrow> bool \<Rightarrow> int \<Rightarrow> nat \<Rightarrow> nat \<Rightarrow> CircuitBreakerState \<Rightarrow> 'a Execution" where
  "retryLoop env backoff jit threshold 0 i cb =
     \<lparr> result = None, breaker = cb, invocations = 0, delays = [] \<rparr>"
| "retryLoop env backoff jit threshold (Suc n) i cb =
     (case operation env i of
        Resolved v \<Rightarrow>
          \<lparr> result = Some v, breaker = cb\<lparr> failures := 0, isOpen := False \<rparr>,
            invocations = 1, delays = [] \<rparr>
      | Rejected \<Rightarrow>
          (let cb' = recordFailure threshold (failedAt env i) cb in
           if n > 0 then
             (let rest = retryLoop env backoff jit threshold n (i + 1) cb'
              in rest\<lparr> invocations := invocations rest + 1,
                       delays := backoffDelay backoff i jit (randomAt env i) # delays rest \<rparr>)
           else \<lparr> result = None, breaker = cb', invocations = 1, delays = [] \<rparr>))"

definition executeAsyncSideEffect ::
  "(string \<rightharpoonup> CircuitBreakerState) \<Rightarrow> 'a Environment \<Rightarrow> string \<Rightarrow> RetryOptions option
     \<Rightarrow> 'a Execution \<times> (string \<rightharpoonup> CircuitBreakerState)" where
  "executeAsyncSideEffect circuitBreakerStates env operationName options =
     (let maxR = optionOr options maxRetries 3;
          backoff = optionOr options backoffMs 1000;
          jit = optionOr options jitter True;
          threshold = optionOr options circuitBreakerThreshold 5;
          resetMs = optionOr options circuitBreakerResetMs 30000;
          cb0 = (case circuitBreakerStates operationName of
                   None \<Rightarrow> \<lparr> failures = 0, isOpen = False, lastFailureTime = 0 \<rparr>
                 | Some cb \<Rightarrow> cb)
      in if isOpen cb0 \<and> \<not> (startedAt env - lastFailureTime cb0 > resetMs) then
           (\<lparr> result = None, breaker = cb0, invocations = 0, delays = [] \<rparr>,
            circuitBreakerStates(operationName \<mapsto> cb0))
         else
           (let cb1 = (if isOpen cb0 then cb0\<lparr> isOpen := False, failures := 0 \<rparr> else cb0);
                ran = retryLoop env backoff jit threshold (nat (maxR + 1)) 0 cb1
            in (ran, circuitBreakerStates(operationName \<mapsto> breaker ran))))"

section \<open>Idempotency keys (src/server/src/middleware/idempotency.ts)\<close>

text \<open>
  Modelled from the spec: the class \<open>LRUCache\<close> of the package \<open>lru-cache\<close>, which the
  middleware constructs with \<open>max: 500\<close> and \<open>ttl: 1000 * 60 * 60\<close> and whose source is
  not part of the repository. The spec gives it a bounded size with least-recently-used
  eviction and a fixed time-to-live after which an entry is treated as absent. The cache
  is the list of its entries (key, cached response, time of the \<open>set\<close>), the most
  recently used first; \<open>get\<close> moves a live entry to the front and drops an expired one,
  \<open>set\<close> puts the entry at the front and cuts the list to \<open>max\<close> entries.
\<close>

type_synonym 'b CacheEntry = "string \<times> (int \<times> 'b) \<times> int"

definition cacheMax :: nat where
  "cacheMax = 500"

definition cacheTtl :: int where
  "cacheTtl = 1000 * 60 * 60"

definition otherThan :: "string \<Rightarrow> 'b CacheEntry \<Rightarrow> bool" where
  "otherThan k e = (fst e \<noteq> k)"

definition lruGet :: "'b CacheEntry list \<Rightarrow> int \<Rightarrow> string \<Rightarrow> (int \<times> 'b) option \<times> 'b CacheEntry list" where
  "lruGet c now k =
     (case find (\<lambda>e. fst e = k) c of
        None \<Rightarrow> (None, c)
      | Some e \<Rightarrow>
          if now - snd (snd e) > cacheTtl then (None, filter (otherThan k) c)
          else (Some (fst (snd e)), e # filter (otherThan k) c))"

definition lruSet :: "'b CacheEntry list \<Rightarrow> int \<Rightarrow> string \<Rightarrow> int \<times> 'b \<Rightarrow> 'b CacheEntry list" where
  "lruSet c now k v = take cacheMax ((k, v, now) # filter (otherThan k) c)"

text \<open>
  The key format
  \<open>/^[0-9a-f]{8}-[0-9a-f]{4}-[4][0-9a-f]{3}-[89ab][0-9a-f]{3}-[0-9a-f]{12}$/i\<close>:
  36 characters, hexadecimal digits of either case between the dashes.
\<close>

definition isHex :: "char \<Rightarrow> bool" where
  "isHex ch = (ch \<in> set ''0123456789abcdefABCDEF'')"

definition isUuidV4 :: "string \<Rightarrow> bool" where
  "isUuidV4 s =
     (length s = 36 \<and>
      list_all isHex (take 8 s) \<and> s ! 8 = CHR ''-'' \<and>
      list_all isHex (take 4 (drop 9 s)) \<and> s ! 13 = CHR ''-'' \<and>
      s ! 14 = CHR ''4'' \<and> list_all isHex (take 3 (drop 15 s)) \<and> s ! 18 = CHR ''-'' \<and>
      s ! 19 \<in> set ''89abAB'' \<and> list_all isHex (take 3 (drop 20 s)) \<and> s ! 23 = CHR ''-'' \<and>
      list_all isHex (drop 24 s))"

text \<open>
  The middleware either answers itself (the 400 for a malformed key, whose fixed body is
  \<open>InvalidKeyBody\<close>, or the cached response) or calls \<open>next()\<close>, with \<open>res.json\<close>
  replaced by the recording hook when a key was given. An absent header and the empty
  string are both falsy.
\<close>

datatype 'b Body = InvalidKeyBody | Json 'b

datatype 'b MiddlewareResult = Next "string option" | Respond int "'b Body"

definition idempotencyMiddleware ::
  "'b CacheEntry list \<Rightarrow> int \<Rightarrow> string option \<Rightarrow> 'b MiddlewareResult \<times> 'b CacheEntry list" where
  "idempotencyMiddleware c now hdr =
     (case hdr of
        None \<Rightarrow> (Next None, c)
      | Some idempotencyKey \<Rightarrow>
          if idempotencyKey = [] then (Next None, c)
          else if \<not> isUuidV4 idempotencyKey then (Respond 400 InvalidKeyBody, c)
          else
            (case lruGet c now idempotencyKey of
               (Some cachedResponse, c') \<Rightarrow>
                 (Respond (fst cachedResponse) (Json (snd cachedResponse)), c')
             | (None, c') \<Rightarrow> (Next (Some idempotencyKey), c')))"

text \<open>The replaced \<open>res.json\<close>: responses with a 2xx status are stored, others are not.\<close>

definition jsonHook :: "'b CacheEntry list \<Rightarrow> int \<Rightarrow> string \<Rightarrow> int \<Rightarrow> 'b \<Rightarrow> 'b CacheEntry list" where
  "jsonHook c now idempotencyKey code b =
     (if code \<ge> 200 \<and> code < 300 then lruSet c now idempotencyKey (code, b) else c)"

text \<open>
  One request through the middleware and the handler behind it. The request carries
  its \<open>Idempotency-Key\<close> header, the time it reaches the middleware, what the handler
  would answer (one call of \<open>res.status(s).json(b)\<close>) and the time of that answer.
  Requests are served one after the other.
\<close>

record 'b Request =
  header :: "string option"
  arrival :: int
  handlerStatus :: int
  handlerBody :: 'b
  completion :: int

record 'b Served =
  sentStatus :: int
  sentBody :: "'b Body"
  handlerInvoked :: bool

definition serve :: "'b CacheEntry list \<Rightarrow> 'b Request \<Rightarrow> 'b Served \<times> 'b CacheEntry list" where
  "serve c req =
     (case idempotencyMiddleware c (arrival req) (header req) of
        (Respond st b, c') \<Rightarrow> (\<lparr> sentStatus = st, sentBody = b, handlerInvoked = False \<rparr>, c')
      | (Next hook, c') \<Rightarrow>
          (\<lparr> sentStatus = handlerStatus req, sentBody = Json (handlerBody req),
             handlerInvoked = True \<rparr>,
           case hook of
             None \<Rightarrow> c'
           | Some k \<Rightarrow> jsonHook c' (completion req) k (handlerStatus req) (handlerBody req)))"

fun serveAll :: "'b CacheEntry list \<Rightarrow> 'b Request list \<Rightarrow> 'b CacheEntry list" where
  "serveAll c [] = c"
| "serveAll c (req # reqs) = serveAll (snd (serve c req)) reqs"

section \<open>Runs of the store and of the cache\<close>

text \<open>
  The states the store can reach are the results of running its mutating methods one
  after the other. \<open>opOk\<close> marks the calls the store is built for: \<open>uuidv4()\<close> returns an
  identifier no report has yet, and an update does not assign another \<open>id\<close> to the report
  it changes.
\<close>

datatype StoreOp =
    OpCreate Report string int
  | OpUpdate string PartialReport string int
  | OpDelete string int
  | OpAutoArchive int int

fun applyOp :: "InMemoryStore \<Rightarrow> StoreOp \<Rightarrow> InMemoryStore" where
  "applyOp s (OpCreate reportData uuid now) = snd (createReport s reportData uuid now)"
| "applyOp s (OpUpdate i updates uid now) = snd (updateReport s i updates uid now)"
| "applyOp s (OpDelete i now) = snd (deleteReport s i now)"
| "applyOp s (OpAutoArchive now cutoffDate) = autoArchiveOldReports s now cutoffDate"

fun opOk :: "InMemoryStore \<Rightarrow> StoreOp \<Rightarrow> bool" where
  "opOk s (OpCreate reportData uuid now) = (map_of (reports s) uuid = None)"
| "opOk s (OpUpdate i updates uid now) = (p_reportId updates = None \<or> p_reportId updates = Some i)"
| "opOk s (OpDelete i now) = True"
| "opOk s (OpAutoArchive now cutoffDate) = True"

fun runOps :: "InMemoryStore \<Rightarrow> StoreOp list \<Rightarrow> InMemoryStore" where
  "runOps s [] = s"
| "runOps s (op # ops) = runOps (applyOp s op) ops"

fun opsOk :: "InMemoryStore \<Rightarrow> StoreOp list \<Rightarrow> bool" where
  "opsOk s [] = True"
| "opsOk s (op # ops) = (opOk s op \<and> opsOk (applyOp s op) ops)"

text \<open>A map has one entry per key, and every report is stored under its own \<open>id\<close>.\<close>

definition wellKeyed :: "(string \<times> Report) list \<Rightarrow> bool" where
  "wellKeyed m = (distinct (map fst m) \<and> list_all (\<lambda>kr. reportId (snd kr) = fst kr) m)"

definition archived :: "int \<Rightarrow> int \<Rightarrow> Report \<Rightarrow> Report" where
  "archived now cutoffDate r =
     (if shouldAutoArchive cutoffDate r then r\<lparr> status := ARCHIVED, updatedAt := now \<rparr> else r)"

text \<open>
  The valid keys other than \<open>k\<close> that a list of requests presents, and the invariant of
  the cache while the entry of \<open>k\<close> is kept: keys are distinct, the entry is there, and
  every entry in front of it belongs to the set \<open>T\<close> of keys used since.
\<close>

definition ownKey :: "string \<Rightarrow> 'b Request \<Rightarrow> string set" where
  "ownKey k req =
     (case header req of
        None \<Rightarrow> {}
      | Some k' \<Rightarrow> if k' \<noteq> k \<and> isUuidV4 k' then {k'} else {})"

definition otherKeys :: "string \<Rightarrow> 'b Request list \<Rightarrow> string set" where
  "otherKeys k reqs = set (filter (\<lambda>k'. k' \<noteq> k \<and> isUuidV4 k') (List.map_filter header reqs))"

definition holds :: "string \<Rightarrow> int \<times> 'b \<Rightarrow> int \<Rightarrow> string set \<Rightarrow> 'b CacheEntry list \<Rightarrow> bool" where
  "holds k v t0 T c =
     (distinct (map fst c) \<and> (\<exists>pre post. c = pre @ (k, v, t0) # post \<and> fst ` set pre \<subseteq> T))"

section \<open>Sample inputs\<close>

definition noUpdates :: PartialReport where
  "noUpdates =
     \<lparr> p_reportId = None, p_title = None, p_description = None, p_status = None,
       p_priority = None, p_createdBy = None, p_createdAt = None, p_updatedAt = None,
       p_lastModifiedBy = None, p_lastModifiedAt = None, p_collaborators = None,
       p_concurrentEditors = None, p_entries = None, p_comments = None, p_tags = None,
       p_metadata = None, p_version = None, p_isActive = None \<rparr>"

definition editorUser :: User where
  "editorUser =
     \<lparr> userId = ''user-2'', email = ''editor@example.com'', userName = ''Editor User'',
       role = EDITOR, tier = DEFAULT, password = [], userCreatedAt = 1704153600000,
       userUpdatedAt = 1704153600000, storageUsed = 52428800 \<rparr>"

definition readerUser :: User where
  "readerUser =
     \<lparr> userId = ''user-3'', email = ''reader@example.com'', userName = ''Reader User'',
       role = READER, tier = DEFAULT, password = [], userCreatedAt = 1704240000000,
       userUpdatedAt = 1704240000000, storageUsed = 10485760 \<rparr>"

definition overQuotaUser :: User where
  "overQuotaUser = editorUser\<lparr> storageUsed := 104857601 \<rparr>"

text \<open>
  The requests of the end-to-end scenario: an editor creates a report, then sends two
  updates, each with \<open>version: 1\<close> in its body.
\<close>

definition scenarioPost :: PostRequest where
  "scenarioPost =
     \<lparr> c_title = ''Weekly status'', c_description = ''Status of the week'',
       c_priority = MEDIUM, c_tags = None, c_collaborators = None, c_metadata = None,
       postUser = Some editorUser, postValidationErrors = [], postIp = ''127.0.0.1'',
       postUserAgent = ''supertest'' \<rparr>"

definition scenarioPut :: "string \<Rightarrow> PutRequest" where
  "scenarioPut newTitle =
     \<lparr> paramId = ''0b0e7c1a-3c55-4a8e-9d0f-2f6c1a7d9e01'',
       body = noUpdates\<lparr> p_title := Some newTitle, p_version := Some 1 \<rparr>,
       putUser = Some editorUser, putValidationErrors = [], putIp = ''127.0.0.1'',
       putUserAgent = ''supertest'' \<rparr>"

definition afterCreate :: "HttpResponse \<times> InMemoryStore" where
  "afterCreate =
     postReport defaultConfig initialStore scenarioPost 1730505600000 1667347200000
       ''0b0e7c1a-3c55-4a8e-9d0f-2f6c1a7d9e01'' ''5d2c8f0e-0000-4000-8000-000000000001''"

definition afterFirstUpdate :: "HttpResponse \<times> InMemoryStore" where
  "afterFirstUpdate =
     putReport defaultConfig (snd afterCreate) (scenarioPut ''First edit'')
       1730505601000 1667347201000 ''5d2c8f0e-0000-4000-8000-000000000002''"

definition afterSecondUpdate :: "HttpResponse \<times> InMemoryStore" where
  "afterSecondUpdate =
     putReport defaultConfig (snd afterFirstUpdate) (scenarioPut ''Second edit'')
       1730505602000 1667347202000 ''5d2c8f0e-0000-4000-8000-000000000003''"

definition sampleOps :: "StoreOp list" where
  "sampleOps =
     [OpUpdate ''report-1''
        (noUpdates\<lparr> p_title := Some ''Q1 Financial Report (final)'', p_version := Some 1 \<rparr>)
        ''user-2'' 1730505600000,
      OpAutoArchive 1793577600000 1730505600000,
      OpDelete ''report-2'' 1793577600001]"

text \<open>Calls of the executor: the jitter test of the repository, and an open breaker.\<close>

definition failOnce :: "string Environment" where
  "failOnce =
     \<lparr> operation = (\<lambda>i. if i = 0 then Rejected else Resolved ''success''),
       failedAt = (\<lambda>i. 1730505600000), randomAt = (\<lambda>i. 0.75), startedAt = 1730505600000 \<rparr>"

definition jitterTestOptions :: RetryOptions where
  "jitterTestOptions =
     \<lparr> maxRetries = Some 1, backoffMs = Some 100, jitter = Some True,
       circuitBreakerThreshold = None, circuitBreakerResetMs = None \<rparr>"

definition openBreaker :: CircuitBreakerState where
  "openBreaker = \<lparr> failures = 5, isOpen = True, lastFailureTime = 1000 \<rparr>"

definition alwaysFails :: "string Environment" where
  "alwaysFails =
     \<lparr> operation = (\<lambda>i. Rejected), failedAt = (\<lambda>i. 40000 + int i),
       randomAt = (\<lambda>i. 0.5), startedAt = 40000 \<rparr>"

definition strictOptions :: RetryOptions where
  "strictOptions =
     \<lparr> maxRetries = Some 1, backoffMs = Some 100, jitter = Some False,
       circuitBreakerThreshold = Some 2, circuitBreakerResetMs = Some 100 \<rparr>"

text \<open>Requests under idempotency keys: one key of interest and 500 further keys.\<close>

definition digitChar :: "nat \<Rightarrow> char" where
  "digitChar d = ''0123456789'' ! d"

definition keyOf :: "nat \<Rightarrow> string" where
  "keyOf n =
     ''00000000-0000-4000-8000-000000000'' @
       [digitChar (n div 100 mod 10), digitChar (n div 10 mod 10), digitChar (n mod 10)]"

definition request :: "string \<Rightarrow> int \<Rightarrow> string \<Rightarrow> string Request" where
  "request k t b =
     \<lparr> header = Some k, arrival = t, handlerStatus = 201, handlerBody = b, completion = t \<rparr>"

definition firstKey :: string where
  "firstKey = ''11111111-1111-4111-8111-111111111111''"

definition flood :: "string Request list" where
  "flood = map (\<lambda>n. request (keyOf n) 1 ''other'') [0..<500]"

section \<open>Properties of the rule engine\<close>

lemma allowed_allow: "allowed allow"
  by (simp add: allow_def)

lemma firstDenial_denies:
  "rule \<in> set rs \<Longrightarrow> \<not> allowed (rule ctx) \<Longrightarrow> \<not> allowed (firstDenial rs ctx)"
  by (induction rs) (auto simp: Let_def)

lemma firstDenial_allows:
  "list_all (\<lambda>rule. allowed (rule ctx)) rs \<Longrightarrow> firstDenial rs ctx = allow"
  by (induction rs) (auto simp: Let_def)

lemma general_denies_below_editor:
  "\<not> hasRole (user ctx) EDITOR \<Longrightarrow> action ctx = ActUpdate \<Longrightarrow>
   \<not> allowed (checkGeneralEditPermissions ctx)"
  by (cases "role (user ctx)")
     (simp_all add: checkGeneralEditPermissions_def hasRole_def roleHierarchy_def)

text \<open>
  C4: for every actor whose role is below Editor (the Reader role) and every report,
  \<open>evaluateAllRules\<close> with the action \<open>update\<close> denies, whatever the status, age, creator,
  collaborators and concurrent editors of the report, the configuration and the clock.
\<close>

theorem reader_update_denied:
  assumes "\<not> hasRole (user ctx) EDITOR" and "action ctx = ActUpdate"
  shows "\<not> allowed (evaluateAllRules cfg now twoYearsAgo ctx)"
proof -
  have "checkGeneralEditPermissions \<in> set (rules cfg now twoYearsAgo)"
    by (simp add: rules_def)
  moreover have "\<not> allowed (checkGeneralEditPermissions ctx)"
    using assms by (rule general_denies_below_editor)
  ultimately show ?thesis
    unfolding evaluateAllRules_def by (rule firstDenial_denies)
qed

text \<open>The reader of the sample data may not update the first sample report.\<close>

theorem reader_update_denied_witness:
  "\<not> hasRole readerUser EDITOR \<and>
   \<not> allowed (evaluateAllRules defaultConfig 1730505600000 1667347200000
      \<lparr> user = readerUser, report = sampleReport1, action = ActUpdate, resource = None \<rparr>)"
  using reader_update_denied
    [of "\<lparr> user = readerUser, report = sampleReport1, action = ActUpdate, resource = None \<rparr>"
        defaultConfig 1730505600000 1667347200000]
  by (simp add: readerUser_def hasRole_def roleHierarchy_def)

text \<open>
  C5: for every report with the status \<open>archived\<close> and every actor, \<open>evaluateAllRules\<close>
  with the action \<open>update\<close> allows only when the actor is an Admin; every other actor gets
  the denial of the lifecycle rule, with its reason.
\<close>

theorem archived_update_admin_only:
  assumes "status (report ctx) = ARCHIVED" and "action ctx = ActUpdate"
  shows "(allowed (evaluateAllRules cfg now twoYearsAgo ctx) \<longrightarrow> role (user ctx) = ADMIN) \<and>
         (role (user ctx) \<noteq> ADMIN \<longrightarrow>
            evaluateAllRules cfg now twoYearsAgo ctx =
              \<lparr> allowed = False,
                reason = Some ''Only ADMIN users can edit archived reports'',
                constraints = Some [(''requiredRole'', CRole ADMIN),
                                    (''currentStatus'', CStatus ARCHIVED)] \<rparr>)"
proof -
  have "evaluateAllRules cfg now twoYearsAgo ctx =
          \<lparr> allowed = False,
            reason = Some ''Only ADMIN users can edit archived reports'',
            constraints = Some [(''requiredRole'', CRole ADMIN),
                                (''currentStatus'', CStatus ARCHIVED)] \<rparr>"
    if "role (user ctx) \<noteq> ADMIN"
    using assms that
    by (simp add: evaluateAllRules_def rules_def checkReportLifecycleManagement_def Let_def)
  then show ?thesis by (cases "role (user ctx) = ADMIN") simp_all
qed

text \<open>The editor of the sample data is denied on the archived sample report.\<close>

theorem archived_update_admin_only_witness:
  "status sampleReport2 = ARCHIVED \<and> role editorUser \<noteq> ADMIN \<and>
   evaluateAllRules defaultConfig 1730505600000 1667347200000
      \<lparr> user = editorUser, report = sampleReport2, action = ActUpdate, resource = None \<rparr> =
     \<lparr> allowed = False,
       reason = Some ''Only ADMIN users can edit archived reports'',
       constraints = Some [(''requiredRole'', CRole ADMIN),
                           (''currentStatus'', CStatus ARCHIVED)] \<rparr>"
  using archived_update_admin_only
    [of "\<lparr> user = editorUser, report = sampleReport2, action = ActUpdate, resource = None \<rparr>"
        defaultConfig 1730505600000 1667347200000]
  by (simp add: sampleReport2_def editorUser_def)

text \<open>
  C10: for every actor and report, \<open>evaluateAllRules\<close> answers \<open>allow\<close> (allowed, no
  reason, no constraints) whenever the action is \<open>read\<close>, \<open>create\<close> or \<open>delete\<close>: the
  rules of the chain deny only updates and uploads.
\<close>

theorem non_update_actions_allowed:
  assumes "action ctx \<in> {ActRead, ActCreate, ActDelete}"
  shows "evaluateAllRules cfg now twoYearsAgo ctx = allow"
proof -
  from assms have a: "action ctx \<noteq> ActUpdate" "action ctx \<noteq> ActUpload"
    by auto
  have "list_all (\<lambda>rule. allowed (rule ctx)) (rules cfg now twoYearsAgo)"
    using a
    by (simp add: rules_def checkReportLifecycleManagement_def checkAttachmentQuota_def
        checkReportCollaboration_def checkDataRetentionPolicy_def
        checkGeneralEditPermissions_def allowed_allow)
  then show ?thesis
    unfolding evaluateAllRules_def by (rule firstDenial_allows)
qed

text \<open>A reader may delete the old, archived sample report as far as the rules go.\<close>

theorem non_update_actions_allowed_witness:
  "role readerUser = READER \<and> status sampleReport2 = ARCHIVED \<and>
   evaluateAllRules defaultConfig 1730505600000 1667347200000
      \<lparr> user = readerUser, report = sampleReport2, action = ActDelete, resource = None \<rparr> =
     \<lparr> allowed = True, reason = None, constraints = None \<rparr>"
  using non_update_actions_allowed
    [of "\<lparr> user = readerUser, report = sampleReport2, action = ActDelete, resource = None \<rparr>"
        defaultConfig 1730505600000 1667347200000]
  by (simp add: readerUser_def sampleReport2_def allow_def)

text \<open>
  The quota rule on an upload with a size other than 0: it rejects exactly when the usage
  plus the size exceeds the quota of the tier.
\<close>

lemma quota_rule_nonzero_size:
  assumes "action ctx = ActUpload" and "resource ctx = Some res" and "fileSize res = Some n"
    and "n \<noteq> 0"
  shows "allowed (checkAttachmentQuota cfg ctx) \<longleftrightarrow>
           storageUsed (user ctx) + n \<le> getUserQuota cfg (tier (user ctx))"
  using assms
  by (simp add: checkAttachmentQuota_def truthyNum_def resourceFileSize_def Let_def)

text \<open>
  C6: the quota rule rejects an upload exactly when usage plus proposed size exceeds the
  quota of the tier, for any size including 0. The rule does not do so for the size 0:
  a user of the default tier whose usage is one byte over the quota of 104857600 passes
  the rule with an empty file, although usage + 0 exceeds the quota.
\<close>

theorem quota_rule_zero_size_passes:
  "storageUsed overQuotaUser + 0 > getUserQuota defaultConfig (tier overQuotaUser) \<and>
   checkAttachmentQuota defaultConfig
     \<lparr> user = overQuotaUser, report = sampleReport1, action = ActUpload,
       resource = Some \<lparr> fileSize = Some 0 \<rparr> \<rparr> =
     \<lparr> allowed = True, reason = None, constraints = None \<rparr>"
  by (simp add: overQuotaUser_def editorUser_def getUserQuota_def defaultConfig_def
      checkAttachmentQuota_def truthyNum_def resourceFileSize_def allow_def)

section \<open>Properties of the store and of the update endpoint\<close>

lemmas scenario_defs =
  afterCreate_def afterFirstUpdate_def afterSecondUpdate_def scenarioPut_def scenarioPost_def
  editorUser_def noUpdates_def initialStore_def defaultConfig_def postReport_def putReport_def
  requireMinRole_def hasRole_def roleHierarchy_def ctlCreateReport_def ctlUpdateReport_def
  tryCreateReport_def tryUpdateReport_def
  evaluateAllRules_def rules_def checkReportLifecycleManagement_def checkAttachmentQuota_def
  checkReportCollaboration_def checkDataRetentionPolicy_def checkGeneralEditPermissions_def
  allow_def createReport_def getReport_def updateReport_def addAuditLog_def applyUpdates_def
  spread_def truthyNum_def resourceFileSize_def Let_def

lemmas store_eval_defs =
  initialStore_def sampleReport1_def sampleReport2_def noUpdates_def updateReport_def
  deleteReport_def autoArchiveOldReports_def archiveEntry_def shouldAutoArchive_def
  getReport_def applyUpdates_def spread_def truthyNum_def Let_def

text \<open>
  The update handler always passes the version it has just read, so the store accepts the
  update of a report the handler has found, and the handler never answers with the status
  409 of a conflict.
\<close>

lemma updateReport_current_version:
  assumes "getReport s i = Some r"
  shows "\<exists>r'. fst (updateReport s i (u\<lparr> p_version := Some (version r) \<rparr>) uid now) = Inr r'"
  using assms
  by (auto simp: updateReport_def getReport_def Let_def split: option.splits if_splits)

lemma ctlUpdateReport_never_conflicts:
  "statusCode (fst (ctlUpdateReport cfg s req now twoYearsAgo uuid)) \<noteq> 409"
proof (cases "getReport s (paramId req)")
  case None
  then show ?thesis
    by (simp add: ctlUpdateReport_def tryUpdateReport_def catchUpdateReport_def failure_def)
next
  case found: (Some r)
  show ?thesis
  proof (cases "putUser req")
    case None
    then show ?thesis
      using found
      by (simp add: ctlUpdateReport_def tryUpdateReport_def catchUpdateReport_def failure_def)
  next
    case (Some usr)
    obtain r' where
      "fst (updateReport s (paramId req) ((body req)\<lparr> p_version := Some (version r) \<rparr>)
             (userId usr) now) = Inr r'"
      using updateReport_current_version[OF found] by blast
    then show ?thesis
      using Some found
      by (auto simp: ctlUpdateReport_def tryUpdateReport_def catchUpdateReport_def failure_def
          Let_def split: prod.splits sum.splits)
  qed
qed

text \<open>
  C1: after an Editor creates a report (version 1) and updates it with the expected
  version 1 (giving version 2), a second update that sends the expected version 1 again
  fails with VersionConflict. The endpoint does not do so: the handler replaces the
  \<open>version\<close> of the request body by the version it has just read from the store, so the
  second update is answered with 200 and leaves the report at version 3.
\<close>

theorem second_update_stale_version_succeeds:
  "map_option version (dataReport (fst afterCreate)) = Some 1 \<and>
   p_version (body (scenarioPut ''First edit'')) = Some 1 \<and>
   statusCode (fst afterFirstUpdate) = 200 \<and>
   map_option version (dataReport (fst afterFirstUpdate)) = Some 2 \<and>
   p_version (body (scenarioPut ''Second edit'')) = Some 1 \<and>
   statusCode (fst afterSecondUpdate) = 200 \<and>
   map_option version (getReport (snd afterSecondUpdate) ''0b0e7c1a-3c55-4a8e-9d0f-2f6c1a7d9e01'') = Some 3 \<and>
   map_option title (getReport (snd afterSecondUpdate) ''0b0e7c1a-3c55-4a8e-9d0f-2f6c1a7d9e01'') =
     Some ''Second edit''"
  by (simp add: scenario_defs)

text \<open>
  The outcomes of the store's \<open>updateReport\<close>: NotFound exactly for a missing or soft-deleted
  report; Conflict exactly for a present report and a supplied version that is neither 0
  nor the stored one; a failure leaves the store as it was; otherwise the report is
  written with its version raised by one.
\<close>

lemma updateReport_notFound_iff:
  "fst (updateReport s i u uid now) = Inl (NotFoundError ''Report'') \<longleftrightarrow> getReport s i = None"
  by (simp add: updateReport_def getReport_def Let_def split: option.splits)

lemma updateReport_conflict_iff:
  "(\<exists>m. fst (updateReport s i u uid now) = Inl (ConflictError m)) \<longleftrightarrow>
   (\<exists>r v. getReport s i = Some r \<and> p_version u = Some v \<and> v \<noteq> 0 \<and> v \<noteq> version r)"
  by (auto simp add: updateReport_def getReport_def truthyNum_def Let_def split: option.splits)

lemma updateReport_failure_unchanged:
  "fst (updateReport s i u uid now) = Inl e \<Longrightarrow> snd (updateReport s i u uid now) = s"
  by (auto simp add: updateReport_def Let_def split: option.splits if_splits)

lemma updateReport_success:
  assumes "getReport s i = Some r"
    and "\<not> (truthyNum (p_version u) \<and> p_version u \<noteq> Some (version r))"
  shows "\<exists>r'. updateReport s i u uid now =
                 (Inr r', s\<lparr> reports := AList.update i r' (reports s) \<rparr>) \<and>
              version r' = version r + 1 \<and> lastModifiedBy r' = uid \<and>
              updatedAt r' = now \<and> lastModifiedAt r' = now"
  using assms
  by (auto simp add: updateReport_def getReport_def Let_def split: option.splits if_splits)

text \<open>
  C2: the store-level update fails with NotFound exactly for a missing or soft-deleted
  report, fails with VersionConflict exactly when the payload supplies an expected version
  that differs from the stored one, skips the check when none is supplied, and leaves the
  store unchanged on failure. The store does not raise the conflict for the supplied
  version 0: on the first sample report, stored with version 1, an update that supplies
  the version 0 is written and returns the report with version 2.
\<close>

theorem updateReport_zero_version_skips_check:
  "map_option version (getReport initialStore ''report-1'') = Some 1 \<and>
   p_version (noUpdates\<lparr> p_version := Some 0 \<rparr>) = Some 0 \<and>
   fst (updateReport initialStore ''report-1'' (noUpdates\<lparr> p_version := Some 0 \<rparr>)
          ''user-2'' 1730505600000) =
     Inr (sampleReport1\<lparr> updatedAt := 1730505600000, lastModifiedBy := ''user-2'',
                          lastModifiedAt := 1730505600000, version := 2 \<rparr>) \<and>
   map_option version
     (getReport (snd (updateReport initialStore ''report-1'' (noUpdates\<lparr> p_version := Some 0 \<rparr>)
                        ''user-2'' 1730505600000)) ''report-1'') = Some 2"
  by (simp add: store_eval_defs)

subsection \<open>Versions along the runs of the store\<close>

lemma set_update_subset: "set (AList.update k v al) \<subseteq> insert (k, v) (set al)"
  by (induction al) auto

lemma wellKeyed_update:
  assumes "wellKeyed m" and "reportId r = k"
  shows "wellKeyed (AList.update k r m)"
proof -
  have "list_all (\<lambda>kr. reportId (snd kr) = fst kr) (AList.update k r m)"
    using assms set_update_subset[of k r m] by (auto simp: wellKeyed_def list_all_iff)
  then show ?thesis
    using assms by (simp add: wellKeyed_def distinct_update)
qed

lemma wellKeyed_lookup: "wellKeyed m \<Longrightarrow> map_of m k = Some r \<Longrightarrow> reportId r = k"
  unfolding wellKeyed_def by (auto simp: list_all_iff dest!: map_of_SomeD)

lemma map_of_filter_active:
  "distinct (map fst m) \<Longrightarrow>
   map_of (filter (\<lambda>kr. isActive (snd kr)) m) k =
     (case map_of m k of None \<Rightarrow> None | Some r \<Rightarrow> if isActive r then Some r else None)"
proof (induction m)
  case Nil
  then show ?case by simp
next
  case (Cons a m)
  then have "fst a \<notin> fst ` set m"
    by simp
  then have "map_of (filter (\<lambda>kr. isActive (snd kr)) m) (fst a) = None"
    by (auto simp: map_of_eq_None_iff)
  with Cons show ?case
    by (cases a) (auto split: option.splits)
qed

lemma archiveEntry_wellKeyed:
  "reportId (snd kr) = fst kr \<Longrightarrow> wellKeyed m \<Longrightarrow> wellKeyed (archiveEntry now c kr m)"
  by (simp add: archiveEntry_def Let_def wellKeyed_update)

lemma archiveEntry_map_of:
  "reportId (snd kr) = fst kr \<Longrightarrow>
   map_of (archiveEntry now c kr m) =
     (if shouldAutoArchive c (snd kr) then (map_of m)(fst kr \<mapsto> archived now c (snd kr))
      else map_of m)"
  by (simp add: archiveEntry_def Let_def update_conv' archived_def)

text \<open>The walk over the snapshot, entry by entry, seen through \<open>map_of\<close>.\<close>

lemma fold_archive_map_of:
  assumes "distinct (map fst xs)" and "list_all (\<lambda>kr. reportId (snd kr) = fst kr) xs"
  shows "map_of (fold (archiveEntry now c) xs m) k =
     (case map_of xs k of
        None \<Rightarrow> map_of m k
      | Some r \<Rightarrow> if shouldAutoArchive c r then Some (archived now c r) else map_of m k)"
  using assms
proof (induction xs arbitrary: m)
  case Nil
  then show ?case by simp
next
  case (Cons kr xs)
  obtain k0 r0 where kr: "kr = (k0, r0)"
    by (cases kr)
  from Cons.prems have d: "distinct (map fst xs)"
    and l: "list_all (\<lambda>kr. reportId (snd kr) = fst kr) xs"
    and k0: "k0 \<notin> fst ` set xs" and id0: "reportId r0 = k0"
    by (auto simp: kr)
  have none: "map_of xs k0 = None"
    using k0 by (simp add: map_of_eq_None_iff)
  show ?case
    using none by (auto simp: Cons.IH[OF d l] kr archiveEntry_map_of id0 split: option.splits)
qed

lemma fold_archive_wellKeyed:
  "list_all (\<lambda>kr. reportId (snd kr) = fst kr) xs \<Longrightarrow> wellKeyed m \<Longrightarrow>
   wellKeyed (fold (archiveEntry now c) xs m)"
  by (induction xs arbitrary: m) (auto simp: archiveEntry_wellKeyed)

lemma autoArchive_lookup:
  assumes "wellKeyed (reports s)"
  shows "map_of (reports (autoArchiveOldReports s now c)) k =
     map_option (\<lambda>r. if isActive r then archived now c r else r) (map_of (reports s) k)"
proof -
  let ?xs = "filter (\<lambda>kr. isActive (snd kr)) (reports s)"
  have d: "distinct (map fst ?xs)"
    using assms by (simp add: wellKeyed_def distinct_map_filter)
  have l: "list_all (\<lambda>kr. reportId (snd kr) = fst kr) ?xs"
    using assms by (auto simp: wellKeyed_def list_all_iff)
  have dm: "distinct (map fst (reports s))"
    using assms by (simp add: wellKeyed_def)
  have m: "map_of ?xs k =
      (case map_of (reports s) k of None \<Rightarrow> None | Some r \<Rightarrow> if isActive r then Some r else None)"
    using dm by (rule map_of_filter_active)
  show ?thesis
    unfolding autoArchiveOldReports_def
    by (auto simp: fold_archive_map_of[OF d l] m archived_def split: option.splits)
qed

lemma version_archived: "version (archived now c r) = version r"
  by (simp add: archived_def)

lemma applyOp_wellKeyed:
  assumes "wellKeyed (reports s)" and "opOk s op"
  shows "wellKeyed (reports (applyOp s op))"
proof (cases op)
  case (OpCreate reportData uuid now)
  then show ?thesis
    using assms by (simp add: createReport_def Let_def wellKeyed_update)
next
  case (OpUpdate i updates uid now)
  show ?thesis
  proof (cases "fst (updateReport s i updates uid now)")
    case (Inl e)
    then show ?thesis
      using assms OpUpdate by (simp add: updateReport_failure_unchanged)
  next
    case (Inr r')
    then obtain r where r: "map_of (reports s) i = Some r"
      by (auto simp: updateReport_def split: option.splits)
    then have "reportId r = i"
      using assms(1) by (rule wellKeyed_lookup[rotated])
    then show ?thesis
      using assms OpUpdate r
      by (auto simp: updateReport_def Let_def applyUpdates_def spread_def intro!: wellKeyed_update)
  qed
next
  case (OpDelete i now)
  show ?thesis
  proof (cases "map_of (reports s) i")
    case None
    then show ?thesis
      using assms OpDelete by (simp add: deleteReport_def)
  next
    case (Some r)
    then have "reportId r = i"
      using assms(1) by (rule wellKeyed_lookup[rotated])
    then show ?thesis
      using assms OpDelete Some by (simp add: deleteReport_def wellKeyed_update)
  qed
next
  case (OpAutoArchive now c)
  have "list_all (\<lambda>kr. reportId (snd kr) = fst kr) (filter (\<lambda>kr. isActive (snd kr)) (reports s))"
    using assms(1) by (auto simp: wellKeyed_def list_all_iff)
  then show ?thesis
    using assms OpAutoArchive by (simp add: autoArchiveOldReports_def fold_archive_wellKeyed)
qed

lemma applyOp_version:
  assumes "wellKeyed (reports s)" and "opOk s op" and "map_of (reports s) k = Some r"
  shows "\<exists>r'. map_of (reports (applyOp s op)) k = Some r' \<and> version r \<le> version r'"
proof (cases op)
  case (OpCreate reportData uuid now)
  then have "uuid \<noteq> k"
    using assms by auto
  then show ?thesis
    using assms OpCreate by (simp add: createReport_def Let_def update_conv')
next
  case (OpUpdate i updates uid now)
  then show ?thesis
    using assms by (auto simp: updateReport_def Let_def update_conv' split: option.splits)
next
  case (OpDelete i now)
  then show ?thesis
    using assms by (auto simp: deleteReport_def update_conv' split: option.splits)
next
  case (OpAutoArchive now c)
  then show ?thesis
    using assms by (simp add: autoArchive_lookup version_archived)
qed

lemma runOps_version:
  assumes "wellKeyed (reports s)" and "opsOk s ops" and "map_of (reports s) k = Some r"
  shows "\<exists>r'. map_of (reports (runOps s ops)) k = Some r' \<and> version r \<le> version r'"
  using assms
proof (induction ops arbitrary: s r)
  case Nil
  then show ?case by simp
next
  case (Cons op ops)
  from Cons.prems have ok: "opOk s op" and oks: "opsOk (applyOp s op) ops"
    by simp_all
  from applyOp_version[OF Cons.prems(1) ok Cons.prems(3)]
  obtain r1 where r1: "map_of (reports (applyOp s op)) k = Some r1" "version r \<le> version r1"
    by blast
  from Cons.IH[OF applyOp_wellKeyed[OF Cons.prems(1) ok] oks r1(1)] r1(2)
  show ?case by (auto intro: order_trans)
qed

text \<open>
  C3 (amended): in every store whose reports are stored under their own ids, and along
  every run of the store's methods from it (fresh identifiers for new reports, no update
  that reassigns an id), the version of a report never decreases; every successful
  \<open>updateReport\<close> raises it by exactly 1; \<open>autoArchiveOldReports\<close>, like \<open>deleteReport\<close>,
  leaves it as it is.
\<close>

theorem version_never_decreases:
  assumes "wellKeyed (reports s)" and "opsOk s ops" and "map_of (reports s) k = Some r"
  shows "(\<exists>r'. map_of (reports (runOps s ops)) k = Some r' \<and> version r \<le> version r') \<and>
         (fst (updateReport s k u uid now) = Inr r2 \<longrightarrow>
            version r2 = version r + 1 \<and>
            map_of (reports (snd (updateReport s k u uid now))) k = Some r2) \<and>
         map_option version (map_of (reports (autoArchiveOldReports s now cutoffDate)) k) =
           Some (version r) \<and>
         map_option version (map_of (reports (snd (deleteReport s k now))) k) = Some (version r)"
proof -
  have a: "\<exists>r'. map_of (reports (runOps s ops)) k = Some r' \<and> version r \<le> version r'"
    using assms by (rule runOps_version)
  have b: "fst (updateReport s k u uid now) = Inr r2 \<longrightarrow>
            version r2 = version r + 1 \<and>
            map_of (reports (snd (updateReport s k u uid now))) k = Some r2"
    using assms(3) by (auto simp: updateReport_def Let_def update_conv' split: if_splits)
  have c: "map_option version (map_of (reports (autoArchiveOldReports s now cutoffDate)) k) =
           Some (version r)"
    using assms(1,3) by (simp add: autoArchive_lookup version_archived)
  have d: "map_option version (map_of (reports (snd (deleteReport s k now))) k) = Some (version r)"
    using assms(3) by (simp add: deleteReport_def update_conv')
  from a b c d show ?thesis by blast
qed

text \<open>
  On the sample data: an update, an auto-archive run and a delete leave the first sample
  report at version 2, one above the version it started with.
\<close>

theorem version_never_decreases_witness:
  "wellKeyed (reports initialStore) \<and> opsOk initialStore sampleOps \<and>
   map_of (reports initialStore) ''report-1'' = Some sampleReport1 \<and>
   (\<exists>r'. map_of (reports (runOps initialStore sampleOps)) ''report-1'' = Some r' \<and>
         version sampleReport1 \<le> version r') \<and>
   map_option version (map_of (reports (runOps initialStore sampleOps)) ''report-1'') = Some 2 \<and>
   map_option version
     (map_of (reports (autoArchiveOldReports initialStore 1793577600000 1730505600000)) ''report-1'') =
     Some (version sampleReport1)"
proof -
  have h1: "wellKeyed (reports initialStore)"
    by (simp add: wellKeyed_def initialStore_def sampleReport1_def sampleReport2_def)
  have h2: "opsOk initialStore sampleOps"
    by (simp add: sampleOps_def noUpdates_def)
  have h3: "map_of (reports initialStore) ''report-1'' = Some sampleReport1"
    by (simp add: initialStore_def)
  have v: "map_option version (map_of (reports (runOps initialStore sampleOps)) ''report-1'') = Some 2"
    by (simp add: sampleOps_def store_eval_defs)
  from version_never_decreases[OF h1 h2 h3, of noUpdates "''user-2''" 1793577600000 undefined 1730505600000]
    h1 h2 h3 v
  show ?thesis by simp
qed

text \<open>
  The claim as stated fails for the auto-archive: the run of 2 November 2026 archives the
  first sample report, created on 15 January 2024, and its version is still 1.
\<close>

theorem autoArchive_version_counterexample:
  "map_option status (map_of (reports initialStore) ''report-1'') = Some ACTIVE \<and>
   map_option version (map_of (reports initialStore) ''report-1'') = Some 1 \<and>
   map_option status
     (map_of (reports (autoArchiveOldReports initialStore 1793577600000 1730505600000)) ''report-1'') =
     Some ARCHIVED \<and>
   map_option version
     (map_of (reports (autoArchiveOldReports initialStore 1793577600000 1730505600000)) ''report-1'') \<noteq>
     Some (1 + 1)"
  by (simp add: store_eval_defs)

section \<open>Properties of the asynchronous executor\<close>

text \<open>Without jitter the delay after the failed attempt \<open>i\<close> is \<open>backoffMs * 2^i\<close>.\<close>

lemma backoffDelay_plain: "backoffDelay backoff i False rnd = backoff * 2 ^ i"
  by (simp add: backoffDelay_def)

text \<open>
  With jitter the delay is that value times \<open>0.5 + Math.random()\<close>, a factor that lies in
  \<open>[0.5, 1.5)\<close>.
\<close>

lemma backoffDelay_jitter:
  assumes "0 \<le> rnd" and "rnd < 1" and "0 < backoff"
  shows "backoffDelay backoff i True rnd = backoff * 2 ^ i * (0.5 + rnd) \<and>
         backoff * 2 ^ i * 0.5 \<le> backoffDelay backoff i True rnd \<and>
         backoffDelay backoff i True rnd < backoff * 2 ^ i * 1.5"
  using assms by (simp add: backoffDelay_def Let_def)

text \<open>The delays the loop waits are the delays of its failed attempts, in their order.\<close>

lemma retryLoop_delays:
  "j < length (delays (retryLoop env backoff jit threshold n i cb)) \<Longrightarrow>
   delays (retryLoop env backoff jit threshold n i cb) ! j =
     backoffDelay backoff (i + j) jit (randomAt env (i + j))"
proof (induction n arbitrary: i j cb)
  case 0
  then show ?case by simp
next
  case (Suc n)
  then show ?case
    by (cases j) (auto simp: Let_def split: Outcome.splits if_splits)
qed

text \<open>
  C8: when attempt \<open>i\<close> fails and attempts remain, the delay is \<open>baseBackoffMs * 2^i\<close>
  without jitter and that value times a random factor in \<open>[0.5, 1.0)\<close> with jitter. The
  loop does not keep the jittered delay below the plain one: in the call of the
  repository's jitter test (\<open>maxRetries: 1, backoffMs: 100, jitter: true\<close>, first attempt
  failing), a draw of 0.75 makes the loop wait 125 ms, above the 100 ms that the claim and
  the comment of that test (between 50 ms and 100 ms) give as the upper end.
\<close>

theorem jitter_delay_exceeds_base:
  "delays (fst (executeAsyncSideEffect Map.empty failOnce ''jitter_test'' (Some jitterTestOptions))) =
     [125] \<and>
   result (fst (executeAsyncSideEffect Map.empty failOnce ''jitter_test'' (Some jitterTestOptions))) =
     Some ''success'' \<and>
   backoffDelay 100 0 True 0.75 = 125 \<and>
   \<not> backoffDelay 100 0 True 0.75 < 100 * 2 ^ 0 * 1"
  by (simp add: executeAsyncSideEffect_def failOnce_def jitterTestOptions_def optionOr_def Let_def
      recordFailure_def backoffDelay_def numeral_2_eq_2)

subsection \<open>The breaker after the reset time\<close>

lemma recordFailure_failures: "failures (recordFailure thr t cb) = failures cb + 1"
  by (simp add: recordFailure_def Let_def)

lemma recordFailure_time: "lastFailureTime (recordFailure thr t cb) = t"
  by (simp add: recordFailure_def Let_def)

lemma recordFailure_open:
  "isOpen (recordFailure thr t cb) = (isOpen cb \<or> int (failures cb + 1) \<ge> thr)"
  by (auto simp: recordFailure_def Let_def)

text \<open>A call whose attempts all fail: every failure is counted and the last one is stamped.\<close>

lemma retryLoop_all_fail:
  assumes "\<forall>j<n. operation env (i + j) = Rejected" and "0 < n"
  shows "retryLoop env backoff jit thr n i cb =
     \<lparr> result = None,
       breaker = \<lparr> failures = failures cb + n,
                   isOpen = (isOpen cb \<or> int (failures cb + n) \<ge> thr),
                   lastFailureTime = failedAt env (i + n - 1) \<rparr>,
       invocations = n,
       delays = map (\<lambda>j. backoffDelay backoff j jit (randomAt env j)) [i..<i + n - 1] \<rparr>"
  using assms
proof (induction n arbitrary: i cb)
  case 0
  then show ?case by simp
next
  case (Suc n)
  have r0: "operation env i = Rejected"
    using Suc.prems(1)[rule_format, of 0] by simp
  show ?case
  proof (cases "n = 0")
    case True
    then show ?thesis
      using r0 by (simp add: Let_def recordFailure_failures recordFailure_time recordFailure_open)
  next
    case False
    have "\<forall>j<n. operation env (i + 1 + j) = Rejected"
    proof (intro allI impI)
      fix j assume "j < n"
      then have "Suc j < Suc n"
        by simp
      then have "operation env (i + Suc j) = Rejected"
        using Suc.prems(1) by blast
      then show "operation env (i + 1 + j) = Rejected"
        by simp
    qed
    from Suc.IH[OF this, of "recordFailure thr (failedAt env i) cb"] False
    show ?thesis
      using r0
      by (auto simp: Let_def recordFailure_failures recordFailure_time recordFailure_open
          upt_conv_Cons)
  qed
qed

lemma retryLoop_success:
  "result (retryLoop env backoff jit thr n i cb) = Some v \<Longrightarrow>
   failures (breaker (retryLoop env backoff jit thr n i cb)) = 0 \<and>
   \<not> isOpen (breaker (retryLoop env backoff jit thr n i cb))"
proof (induction n arbitrary: i cb)
  case 0
  then show ?case by simp
next
  case (Suc n)
  then show ?case
    by (cases "operation env i") (auto simp: Let_def split: if_splits)
qed

lemma retryLoop_invoked: "0 < n \<Longrightarrow> 1 \<le> invocations (retryLoop env backoff jit thr n i cb)"
  by (cases n) (auto simp: Let_def split: Outcome.splits)

lemma retryLoop_first_success:
  "0 < n \<Longrightarrow> operation env i = Resolved v \<Longrightarrow>
   retryLoop env backoff jit thr n i cb =
     \<lparr> result = Some v, breaker = cb\<lparr> failures := 0, isOpen := False \<rparr>,
       invocations = 1, delays = [] \<rparr>"
  by (cases n) auto

text \<open>
  C9 (amended): when more than \<open>circuitBreakerResetMs\<close> have passed since the last failure
  of an open breaker, the next call of \<open>executeAsyncSideEffect\<close> for that operation name
  (with \<open>maxRetries \<ge> 0\<close>) runs the operation for real, after closing the breaker and
  setting its failure counter to 0. If the call succeeds (at its first attempt or at a
  later one) the breaker is left closed with the counter 0. If every attempt of the call
  fails, the counter is left at \<open>maxRetries + 1\<close>, the time of the last failure is the
  time of the last failed attempt, and the breaker is open again exactly when
  \<open>maxRetries + 1\<close> reaches \<open>circuitBreakerThreshold\<close>; otherwise it stays closed.
\<close>

theorem half_open_probe:
  fixes env :: "'a Environment"
  assumes "circuitBreakerStates operationName = Some cb" and "isOpen cb"
    and "startedAt env - lastFailureTime cb > optionOr options circuitBreakerResetMs 30000"
    and "0 \<le> optionOr options maxRetries 3"
  defines "ex \<equiv> executeAsyncSideEffect circuitBreakerStates env operationName options"
    and "maxR \<equiv> optionOr options maxRetries 3"
    and "thr \<equiv> optionOr options circuitBreakerThreshold 5"
  shows "1 \<le> invocations (fst ex) \<and>
         snd ex operationName = Some (breaker (fst ex)) \<and>
         (operation env 0 = Resolved v \<longrightarrow>
            result (fst ex) = Some v \<and> invocations (fst ex) = 1 \<and>
            breaker (fst ex) =
              \<lparr> failures = 0, isOpen = False, lastFailureTime = lastFailureTime cb \<rparr>) \<and>
         (result (fst ex) = Some v \<longrightarrow>
            failures (breaker (fst ex)) = 0 \<and> \<not> isOpen (breaker (fst ex))) \<and>
         ((\<forall>j \<le> nat maxR. operation env j = Rejected) \<longrightarrow>
            result (fst ex) = None \<and> invocations (fst ex) = nat maxR + 1 \<and>
            breaker (fst ex) =
              \<lparr> failures = nat maxR + 1, isOpen = (thr \<le> maxR + 1),
                lastFailureTime = failedAt env (nat maxR) \<rparr>)"
proof -
  let ?cb1 = "cb\<lparr> isOpen := False, failures := 0 \<rparr>"
  let ?run = "retryLoop env (optionOr options backoffMs 1000) (optionOr options jitter True)
                thr (nat (maxR + 1)) 0 ?cb1"
  have ex: "ex = (?run, circuitBreakerStates(operationName \<mapsto> breaker ?run))"
    using assms(1,2,3) by (simp add: ex_def maxR_def thr_def executeAsyncSideEffect_def Let_def)
  have pos: "0 < nat (maxR + 1)"
    using assms(4) by (simp add: maxR_def)
  have a: "1 \<le> invocations (fst ex)"
    using retryLoop_invoked[OF pos] by (simp add: ex)
  have b: "snd ex operationName = Some (breaker (fst ex))"
    by (simp add: ex)
  have c: "operation env 0 = Resolved v \<longrightarrow>
            result (fst ex) = Some v \<and> invocations (fst ex) = 1 \<and>
            breaker (fst ex) =
              \<lparr> failures = 0, isOpen = False, lastFailureTime = lastFailureTime cb \<rparr>"
    using retryLoop_first_success[OF pos, of env 0 v] by (auto simp: ex)
  have d: "result (fst ex) = Some v \<longrightarrow>
            failures (breaker (fst ex)) = 0 \<and> \<not> isOpen (breaker (fst ex))"
    using retryLoop_success[of env _ _ thr "nat (maxR + 1)" 0 ?cb1 v] by (simp add: ex)
  have e: "(\<forall>j \<le> nat maxR. operation env j = Rejected) \<longrightarrow>
            result (fst ex) = None \<and> invocations (fst ex) = nat maxR + 1 \<and>
            breaker (fst ex) =
              \<lparr> failures = nat maxR + 1, isOpen = (thr \<le> maxR + 1),
                lastFailureTime = failedAt env (nat maxR) \<rparr>"
  proof
    assume all: "\<forall>j \<le> nat maxR. operation env j = Rejected"
    have n: "nat (maxR + 1) = nat maxR + 1"
      using assms(4) by (simp add: maxR_def nat_add_distrib)
    have "\<forall>j < nat (maxR + 1). operation env (0 + j) = Rejected"
      using all n by simp
    from retryLoop_all_fail[OF this pos, of _ _ thr ?cb1]
    show "result (fst ex) = None \<and> invocations (fst ex) = nat maxR + 1 \<and>
            breaker (fst ex) =
              \<lparr> failures = nat maxR + 1, isOpen = (thr \<le> maxR + 1),
                lastFailureTime = failedAt env (nat maxR) \<rparr>"
      using assms(4) n by (simp add: ex maxR_def)
  qed
  from a b c d e show ?thesis by blast
qed

text \<open>
  With a threshold of 2 and one retry, the call after the reset time runs the failing
  operation twice and leaves the breaker open, stamped with the second failure.
\<close>

theorem half_open_probe_witness:
  "[''op'' \<mapsto> openBreaker] ''op'' = Some openBreaker \<and> isOpen openBreaker \<and>
   startedAt alwaysFails - lastFailureTime openBreaker >
     optionOr (Some strictOptions) circuitBreakerResetMs 30000 \<and>
   0 \<le> optionOr (Some strictOptions) maxRetries 3 \<and>
   result (fst (executeAsyncSideEffect [''op'' \<mapsto> openBreaker] alwaysFails ''op''
      (Some strictOptions))) = None \<and>
   invocations (fst (executeAsyncSideEffect [''op'' \<mapsto> openBreaker] alwaysFails ''op''
      (Some strictOptions))) = 2 \<and>
   snd (executeAsyncSideEffect [''op'' \<mapsto> openBreaker] alwaysFails ''op''
      (Some strictOptions)) ''op'' =
     Some \<lparr> failures = 2, isOpen = True, lastFailureTime = 40001 \<rparr>"
proof -
  have h1: "[''op'' \<mapsto> openBreaker] ''op'' = Some openBreaker"
    by simp
  have h2: "isOpen openBreaker"
    by (simp add: openBreaker_def)
  have h3: "startedAt alwaysFails - lastFailureTime openBreaker >
      optionOr (Some strictOptions) circuitBreakerResetMs 30000"
    by (simp add: alwaysFails_def openBreaker_def optionOr_def strictOptions_def)
  have h4: "0 \<le> optionOr (Some strictOptions) maxRetries 3"
    by (simp add: optionOr_def strictOptions_def)
  have all: "\<forall>j \<le> nat (optionOr (Some strictOptions) maxRetries 3). operation alwaysFails j = Rejected"
    by (simp add: alwaysFails_def)
  note probe = half_open_probe
    [where circuitBreakerStates = "[''op'' \<mapsto> openBreaker]" and operationName = "''op''"
       and cb = openBreaker and env = alwaysFails and options = "Some strictOptions"
       and v = "''none''"]
  from probe[OF h1 h2 h3 h4] all h1 h2 h3 h4
  show ?thesis
    by (simp add: optionOr_def strictOptions_def alwaysFails_def)
qed

text \<open>
  The claim as stated fails with the default options (three retries, threshold 5): the
  call after the reset time runs the failing operation four times, and the breaker is
  left closed with four failures counted, not open.
\<close>

theorem half_open_failure_counterexample:
  "isOpen openBreaker \<and>
   startedAt alwaysFails - lastFailureTime openBreaker > 30000 \<and>
   invocations (fst (executeAsyncSideEffect [''report_creation_side_effect'' \<mapsto> openBreaker]
      alwaysFails ''report_creation_side_effect'' None)) = 4 \<and>
   snd (executeAsyncSideEffect [''report_creation_side_effect'' \<mapsto> openBreaker]
      alwaysFails ''report_creation_side_effect'' None) ''report_creation_side_effect'' =
     Some \<lparr> failures = 4, isOpen = False, lastFailureTime = 40003 \<rparr>"
  by (simp add: executeAsyncSideEffect_def openBreaker_def alwaysFails_def optionOr_def Let_def
      recordFailure_def eval_nat_numeral)

section \<open>Properties of the idempotency middleware\<close>

lemma distinct_filter_keys: "distinct (map fst c) \<Longrightarrow> distinct (map fst (filter P c))"
  by (simp add: distinct_map_filter)

lemma find_app: "find P (xs @ ys) = (case find P xs of None \<Rightarrow> find P ys | Some x \<Rightarrow> Some x)"
  by (induction xs) auto

lemma holds_find:
  assumes "holds k v t0 T c"
  shows "find (\<lambda>e. fst e = k) c = Some (k, v, t0)"
proof -
  from assms obtain pre post where c: "c = pre @ (k, v, t0) # post" and d: "distinct (map fst c)"
    by (auto simp: holds_def)
  from c d have "k \<notin> fst ` set pre" by auto
  then have "find (\<lambda>e. fst e = k) pre = None" by (force simp: find_None_iff)
  then show ?thesis by (simp add: c find_app)
qed

lemma find_SomeD: "find P xs = Some x \<Longrightarrow> P x \<and> x \<in> set xs"
  by (induction xs) (auto split: if_splits)

lemma key_not_in_filter: "k \<notin> fst ` set (filter (otherThan k) c)"
  by (auto simp: otherThan_def)

lemma distinct_cons_filter:
  "distinct (map fst c) \<Longrightarrow> distinct (map fst ((k, w, t) # filter (otherThan k) c))"
  using key_not_in_filter[of k c] by (simp add: distinct_filter_keys)

lemma holds_mono: "holds k v t0 T c \<Longrightarrow> T \<subseteq> T' \<Longrightarrow> holds k v t0 T' c"
  unfolding holds_def by blast

lemma holds_filter:
  assumes "holds k v t0 T c" and "k' \<noteq> k"
  shows "holds k v t0 T (filter (otherThan k') c)"
proof -
  from assms obtain pre post where c: "c = pre @ (k, v, t0) # post" and d: "distinct (map fst c)"
    and p: "fst ` set pre \<subseteq> T"
    by (auto simp: holds_def)
  have "filter (otherThan k') c = filter (otherThan k') pre @ (k, v, t0) # filter (otherThan k') post"
    using assms(2) by (simp add: c otherThan_def)
  moreover have "fst ` set (filter (otherThan k') pre) \<subseteq> T" using p by auto
  moreover have "distinct (map fst (filter (otherThan k') c))" using d by (rule distinct_filter_keys)
  ultimately show ?thesis unfolding holds_def by blast
qed

lemma holds_cons:
  assumes "holds k v t0 T (filter (otherThan k') c)" and "k' \<noteq> k"
  shows "holds k v t0 (insert k' T) ((k', w, t) # filter (otherThan k') c)"
proof -
  from assms obtain pre post where c: "filter (otherThan k') c = pre @ (k, v, t0) # post"
    and d: "distinct (map fst (filter (otherThan k') c))" and p: "fst ` set pre \<subseteq> T"
    by (auto simp: holds_def)
  have "(k', w, t) # filter (otherThan k') c = ((k', w, t) # pre) @ (k, v, t0) # post"
    by (simp add: c)
  moreover have "fst ` set ((k', w, t) # pre) \<subseteq> insert k' T" using p by auto
  moreover have "distinct (map fst ((k', w, t) # filter (otherThan k') c))"
    using d key_not_in_filter[of k' c] by simp
  ultimately show ?thesis unfolding holds_def by blast
qed

lemma holds_take:
  assumes "holds k v t0 T c" and "finite T" and "card T < n"
  shows "holds k v t0 T (take n c)"
proof -
  from assms obtain pre post where c: "c = pre @ (k, v, t0) # post" and d: "distinct (map fst c)"
    and p: "fst ` set pre \<subseteq> T"
    by (auto simp: holds_def)
  from d have "distinct (map fst pre)" by (simp add: c)
  then have "length pre = card (fst ` set pre)"
    by (metis distinct_card length_map set_map)
  also have "\<dots> \<le> card T" using p assms(2) by (rule card_mono[rotated])
  finally have "length pre < n" using assms(3) by simp
  then have "take n c = pre @ (k, v, t0) # take (n - length pre - 1) post"
    by (simp add: c take_Cons')
  moreover have "distinct (map fst (take n c))" using d by (simp add: distinct_take take_map[symmetric])
  ultimately show ?thesis using p unfolding holds_def by blast
qed

lemma holds_lruSet_other:
  assumes "holds k v t0 T c" and "k' \<noteq> k" and "finite T" and "card (insert k' T) < cacheMax"
  shows "holds k v t0 (insert k' T) (lruSet c now k' w)"
  unfolding lruSet_def
  using holds_take[OF holds_cons[OF holds_filter[OF assms(1,2)] assms(2)], of cacheMax w now] assms(3,4)
  by simp

lemma holds_lruGet_other:
  assumes "holds k v t0 T c" and "k' \<noteq> k"
  shows "holds k v t0 (insert k' T) (snd (lruGet c now k'))"
proof (cases "find (\<lambda>e. fst e = k') c")
  case None
  then show ?thesis using assms(1) by (auto simp: lruGet_def intro: holds_mono)
next
  case (Some e)
  then have e: "fst e = k'" by (auto dest: find_SomeD)
  obtain w t where "e = (k', w, t)" using e by (cases e) auto
  then show ?thesis
    using Some holds_cons[OF holds_filter[OF assms] assms(2), of w t]
      holds_mono[OF holds_filter[OF assms], of "insert k' T"]
    by (auto simp: lruGet_def)
qed

lemma lruGet_hit:
  assumes "holds k v t0 T c" and "now - t0 \<le> cacheTtl"
  shows "fst (lruGet c now k) = Some v" and "holds k v t0 {} (snd (lruGet c now k))"
proof -
  from assms(1) have d: "distinct (map fst c)" by (simp add: holds_def)
  have f: "find (\<lambda>e. fst e = k) c = Some (k, v, t0)" using assms(1) by (rule holds_find)
  show "fst (lruGet c now k) = Some v" using f assms(2) by (simp add: lruGet_def)
  have "distinct (map fst ((k, v, t0) # filter (otherThan k) c))"
    using d by (rule distinct_cons_filter)
  moreover have "\<exists>pre post. (k, v, t0) # filter (otherThan k) c = pre @ (k, v, t0) # post \<and> fst ` set pre \<subseteq> {}"
    by (rule exI[of _ "[]"], rule exI[of _ "filter (otherThan k) c"]) simp
  ultimately have "holds k v t0 {} ((k, v, t0) # filter (otherThan k) c)"
    unfolding holds_def by (rule conjI)
  then show "holds k v t0 {} (snd (lruGet c now k))" using f assms(2) by (simp add: lruGet_def)
qed

lemma lruGet_distinct:
  assumes "distinct (map fst c)"
  shows "distinct (map fst (snd (lruGet c now k)))"
proof (cases "find (\<lambda>e. fst e = k) c")
  case None
  then show ?thesis using assms by (simp add: lruGet_def)
next
  case (Some e)
  then have "fst e = k" by (auto dest: find_SomeD)
  then obtain w t where "e = (k, w, t)" by (cases e) auto
  then show ?thesis
    using Some assms distinct_cons_filter[of c k w t] distinct_filter_keys[of c "otherThan k"]
    by (auto simp: lruGet_def)
qed


lemma holds_lruSet_fresh:
  assumes "distinct (map fst c)"
  shows "holds k v t0 {} (lruSet c t0 k v)"
proof -
  have "take cacheMax ((k, v, t0) # filter (otherThan k) c) =
        (k, v, t0) # take (cacheMax - 1) (filter (otherThan k) c)"
    by (simp add: cacheMax_def take_Cons')
  moreover have "distinct (map fst (take cacheMax ((k, v, t0) # filter (otherThan k) c)))"
    using distinct_cons_filter[OF assms, of k v t0] by (simp add: distinct_take take_map[symmetric] del: take_Cons')
  ultimately show ?thesis
    unfolding holds_def lruSet_def
    by (intro conjI exI[of _ "[]"] exI[of _ "take (cacheMax - 1) (filter (otherThan k) c)"]) simp_all
qed

lemma otherKeys_Nil: "otherKeys k [] = {}"
  by (simp add: otherKeys_def List.map_filter_simps)

lemma otherKeys_Cons: "otherKeys k (req # reqs) = ownKey k req \<union> otherKeys k reqs"
  by (auto simp: otherKeys_def ownKey_def List.map_filter_simps split: option.splits)

lemma finite_ownKey: "finite (ownKey k req)"
  by (simp add: ownKey_def split: option.splits)

lemma serve_other:
  assumes "holds k v t0 T c" and "header req \<noteq> Some k" and "finite T"
    and "card (T \<union> ownKey k req) < cacheMax"
  shows "holds k v t0 (T \<union> ownKey k req) (snd (serve c req))"
proof (cases "header req")
  case None
  then show ?thesis using assms(1) by (auto simp: serve_def idempotencyMiddleware_def intro: holds_mono)
next
  case (Some k')
  then have ne: "k' \<noteq> k" using assms(2) by simp
  show ?thesis
  proof (cases "k' = [] \<or> \<not> isUuidV4 k'")
    case True
    then show ?thesis using assms(1) Some
      by (auto simp: serve_def idempotencyMiddleware_def intro: holds_mono)
  next
    case False
    then have ok: "ownKey k req = {k'}" using Some ne
      by (simp add: ownKey_def)
    have g: "holds k v t0 (insert k' T) (snd (lruGet c (arrival req) k'))"
      using assms(1) ne by (rule holds_lruGet_other)
    have fin: "finite (insert k' T)" using assms(3) by simp
    have cd: "card (insert k' (insert k' T)) < cacheMax" using assms(4) ok by simp
    have s: "holds k v t0 (insert k' T) (lruSet (snd (lruGet c (arrival req) k')) t k' w)" for t w
      using holds_lruSet_other[OF g ne fin cd, of t w] by simp
    show ?thesis using False Some g s ok
      by (auto simp: serve_def idempotencyMiddleware_def jsonHook_def split: prod.splits option.splits)
  qed
qed

lemma serve_same:
  assumes "holds k v t0 T c" and "header req = Some k" and "isUuidV4 k" and "arrival req - t0 \<le> cacheTtl"
  shows "fst (serve c req) = \<lparr> sentStatus = fst v, sentBody = Json (snd v), handlerInvoked = False \<rparr>"
    and "holds k v t0 {} (snd (serve c req))"
proof -
  have ne: "k \<noteq> []" using assms(3) by (auto simp: isUuidV4_def)
  from lruGet_hit[OF assms(1,4)]
  have h: "fst (lruGet c (arrival req) k) = Some v" "holds k v t0 {} (snd (lruGet c (arrival req) k))" .
  show "fst (serve c req) = \<lparr> sentStatus = fst v, sentBody = Json (snd v), handlerInvoked = False \<rparr>"
    using h assms(2,3) ne by (auto simp: serve_def idempotencyMiddleware_def split: prod.splits option.splits)
  show "holds k v t0 {} (snd (serve c req))"
    using h assms(2,3) ne by (auto simp: serve_def idempotencyMiddleware_def split: prod.splits option.splits)
qed

lemma finite_otherKeys: "finite (otherKeys k reqs)"
  by (simp add: otherKeys_def)

lemma serveAll_holds:
  assumes "holds k v t0 T c" and "finite T" and "isUuidV4 k"
    and "card (T \<union> otherKeys k reqs) < cacheMax"
    and "\<forall>r \<in> set reqs. arrival r - t0 \<le> cacheTtl"
  shows "holds k v t0 (T \<union> otherKeys k reqs) (serveAll c reqs)"
  using assms
proof (induction reqs arbitrary: T c)
  case Nil
  then show ?case by (simp add: otherKeys_Nil)
next
  case (Cons req reqs)
  let ?T1 = "T \<union> ownKey k req"
  have sub: "?T1 \<union> otherKeys k reqs = T \<union> otherKeys k (req # reqs)"
    by (auto simp: otherKeys_Cons)
  have fin1: "finite ?T1" using Cons.prems(2) by (simp add: finite_ownKey)
  have c1: "card ?T1 < cacheMax"
  proof -
    have "card ?T1 \<le> card (T \<union> otherKeys k (req # reqs))"
      by (rule card_mono) (auto simp: Cons.prems(2) finite_otherKeys finite_ownKey otherKeys_Cons)
    then show ?thesis using Cons.prems(4) by simp
  qed
  have h1: "holds k v t0 ?T1 (snd (serve c req))"
  proof (cases "header req = Some k")
    case True
    have "arrival req - t0 \<le> cacheTtl" using Cons.prems(5) by simp
    from serve_same(2)[OF Cons.prems(1) True Cons.prems(3) this]
    show ?thesis by (rule holds_mono) simp
  next
    case False
    from serve_other[OF Cons.prems(1) False Cons.prems(2) c1] show ?thesis .
  qed
  have "holds k v t0 (?T1 \<union> otherKeys k reqs) (serveAll (snd (serve c req)) reqs)"
    using Cons.prems(3,4,5) by (intro Cons.IH[OF h1 fin1]) (simp_all add: sub)
  then show ?case by (simp add: sub)
qed


text \<open>
  C7 (amended): if a request under a valid idempotency key reached the handler, was
  answered with a status in the success range and so was recorded, then any later request
  that presents the same key within the time-to-live of the recording, while fewer than
  500 distinct other valid keys have been presented since it (so that the entry has not
  been evicted), receives exactly the recorded status and body, and the handler is not
  invoked for it. Requests are served one after the other.
\<close>

theorem idempotent_replay:
  assumes "distinct (map fst c0)" and "isUuidV4 k"
    and "header first = Some k" and "handlerInvoked (fst (serve c0 first))"
    and "200 \<le> handlerStatus first" and "handlerStatus first < 300"
    and "\<forall>r \<in> set between. arrival r - completion first \<le> cacheTtl"
    and "card (otherKeys k between) < cacheMax"
    and "header again = Some k" and "arrival again - completion first \<le> cacheTtl"
  shows "fst (serve (serveAll (snd (serve c0 first)) between) again) =
           \<lparr> sentStatus = handlerStatus first, sentBody = Json (handlerBody first),
             handlerInvoked = False \<rparr>"
proof -
  let ?v = "(handlerStatus first, handlerBody first)"
  let ?c' = "snd (lruGet c0 (arrival first) k)"
  have ne: "k \<noteq> []"
    using assms(2) by (auto simp: isUuidV4_def)
  have miss: "fst (lruGet c0 (arrival first) k) = None"
    using assms(2,3,4) ne
    by (auto simp: serve_def idempotencyMiddleware_def split: prod.splits option.splits)
  have c1: "snd (serve c0 first) = lruSet ?c' (completion first) k ?v"
    using assms(2,3,5,6) ne miss
    by (auto simp: serve_def idempotencyMiddleware_def jsonHook_def
        split: prod.splits option.splits)
  have "distinct (map fst ?c')"
    using assms(1) by (rule lruGet_distinct)
  then have "holds k ?v (completion first) {} (snd (serve c0 first))"
    unfolding c1 by (rule holds_lruSet_fresh)
  from serveAll_holds[OF this _ assms(2) _ assms(7)] assms(8)
  have "holds k ?v (completion first) ({} \<union> otherKeys k between)
          (serveAll (snd (serve c0 first)) between)"
    by simp
  from serve_same(1)[OF this assms(9) assms(2) assms(10)] show ?thesis
    by simp
qed

subsection \<open>Keys for the examples\<close>

lemma isHex_digitChar: "d < 10 \<Longrightarrow> isHex (digitChar d)"
proof -
  assume "d < 10"
  then have "d = 0 \<or> d = 1 \<or> d = 2 \<or> d = 3 \<or> d = 4 \<or> d = 5 \<or> d = 6 \<or> d = 7 \<or> d = 8 \<or> d = 9"
    by arith
  then show ?thesis
    by (elim disjE) (simp_all add: isHex_def digitChar_def)
qed

lemma isUuidV4_keyOf: "isUuidV4 (keyOf n)"
proof -
  have d: "isHex (digitChar (n div 100 mod 10))" "isHex (digitChar (n div 10 mod 10))" "isHex (digitChar (n mod 10))"
    by (simp_all add: isHex_digitChar)
  have z: "isHex CHR ''0''" by (simp add: isHex_def)
  show ?thesis using d z by (simp add: isUuidV4_def keyOf_def)
qed

lemma digitChar_inj: "d < 10 \<Longrightarrow> e < 10 \<Longrightarrow> digitChar d = digitChar e \<Longrightarrow> d = e"
  unfolding digitChar_def by (subst (asm) nth_eq_iff_index_eq) simp_all

lemma keyOf_inj:
  assumes "n < 1000" and "m < 1000" and "keyOf n = keyOf m"
  shows "n = m"
proof -
  from assms(3) have "digitChar (n div 100 mod 10) = digitChar (m div 100 mod 10)"
    "digitChar (n div 10 mod 10) = digitChar (m div 10 mod 10)" "digitChar (n mod 10) = digitChar (m mod 10)"
    by (simp_all add: keyOf_def)
  then have "n div 100 mod 10 = m div 100 mod 10" "n div 10 mod 10 = m div 10 mod 10" "n mod 10 = m mod 10"
    by (auto dest!: digitChar_inj[rotated 2])
  note eqs = this
  have hn: "n div 100 mod 10 = n div 100" and hm: "m div 100 mod 10 = m div 100"
    using assms(1,2) by simp_all
  have dn: "n div 10 div 10 = n div 100" and dm: "m div 10 div 10 = m div 100"
    by (simp_all add: div_mult2_eq[symmetric])
  have "n div 10 = 10 * (n div 10 div 10) + n div 10 mod 10" by simp
  moreover have "m div 10 = 10 * (m div 10 div 10) + m div 10 mod 10" by simp
  ultimately have t: "n div 10 = m div 10" using eqs hn hm dn dm by simp
  have "n = 10 * (n div 10) + n mod 10" by simp
  moreover have "m = 10 * (m div 10) + m mod 10" by simp
  ultimately show ?thesis using t eqs(3) by simp
qed


lemma lruGet_absent:
  assumes "k \<notin> fst ` set c"
  shows "lruGet c now k = (None, c)"
proof -
  have "find (\<lambda>e. fst e = k) c = None" using assms by (force simp: find_None_iff)
  then show ?thesis by (simp add: lruGet_def)
qed

lemma filter_absent: "k \<notin> fst ` set c \<Longrightarrow> filter (otherThan k) c = c"
  by (induction c) (auto simp: otherThan_def)

lemma serve_fresh:
  assumes "isUuidV4 k" and "k \<notin> fst ` set c"
  shows "serve c (request k t b) =
    (\<lparr> sentStatus = 201, sentBody = Json b, handlerInvoked = True \<rparr>, take cacheMax ((k, (201, b), t) # c))"
proof -
  have "k \<noteq> []" using assms(1) by (auto simp: isUuidV4_def)
  then show ?thesis
    using assms
    by (simp add: serve_def idempotencyMiddleware_def request_def lruGet_absent jsonHook_def lruSet_def
        filter_absent)
qed

lemma take_append_take: "take n (xs @ take n ys) = take n (xs @ ys)"
  by (simp add: min_def)

lemma serveAll_flood:
  assumes "distinct ks" and "\<forall>k \<in> set ks. isUuidV4 k \<and> k \<notin> fst ` set c" and "length c \<le> cacheMax"
  shows "serveAll c (map (\<lambda>k. request k t b) ks) =
           take cacheMax (rev (map (\<lambda>k. (k, (201, b), t)) ks) @ c)"
  using assms
proof (induction ks arbitrary: c)
  case Nil
  then show ?case by simp
next
  case (Cons k ks)
  let ?c1 = "take cacheMax ((k, (201, b), t) # c)"
  have s: "snd (serve c (request k t b)) = ?c1"
    using Cons.prems(2) by (simp add: serve_fresh)
  have fresh: "\<forall>k' \<in> set ks. isUuidV4 k' \<and> k' \<notin> fst ` set ?c1"
  proof
    fix k' assume k': "k' \<in> set ks"
    then have "k' \<noteq> k" using Cons.prems(1) by auto
    moreover have "k' \<notin> fst ` set c" "isUuidV4 k'" using Cons.prems(2) k' by auto
    ultimately show "isUuidV4 k' \<and> k' \<notin> fst ` set ?c1"
      by (auto dest!: in_set_takeD)
  qed
  have "serveAll ?c1 (map (\<lambda>k. request k t b) ks) =
        take cacheMax (rev (map (\<lambda>k. (k, (201, b), t)) ks) @ ?c1)"
    using Cons.prems(1) fresh by (intro Cons.IH) simp_all
  then show ?case by (simp add: s take_append_take)
qed

text \<open>
  A replay on an empty cache: the first request is recorded, a request under another key
  and a request without a key follow, and the first key is then answered from the cache.
\<close>

theorem idempotent_replay_witness:
  "distinct (map fst ([] :: string CacheEntry list)) \<and> isUuidV4 firstKey \<and>
   handlerInvoked (fst (serve [] (request firstKey 0 ''first''))) \<and>
   card (otherKeys firstKey
      [request (keyOf 7) 1 ''other'', (request [] 1 ''plain'')\<lparr> header := None \<rparr>]) < cacheMax \<and>
   arrival (request firstKey 2 ''again'') - completion (request firstKey 0 ''first'') \<le> cacheTtl \<and>
   fst (serve (serveAll (snd (serve [] (request firstKey 0 ''first'')))
          [request (keyOf 7) 1 ''other'', (request [] 1 ''plain'')\<lparr> header := None \<rparr>])
        (request firstKey 2 ''again'')) =
     \<lparr> sentStatus = 201, sentBody = Json ''first'', handlerInvoked = False \<rparr>"
proof -
  let ?between = "[request (keyOf 7) 1 ''other'', (request [] 1 ''plain'')\<lparr> header := None \<rparr>]"
  have h1: "distinct (map fst ([] :: string CacheEntry list))"
    by simp
  have h2: "isUuidV4 firstKey"
    by (simp add: isUuidV4_def firstKey_def isHex_def)
  have h3: "header (request firstKey 0 ''first'') = Some firstKey"
    by (simp add: request_def)
  have h4: "handlerInvoked (fst (serve [] (request firstKey 0 ''first'')))"
    using h2 by (simp add: serve_fresh)
  have h5: "200 \<le> handlerStatus (request firstKey 0 ''first'')"
    and h6: "handlerStatus (request firstKey 0 ''first'') < 300"
    by (simp_all add: request_def)
  have h7: "\<forall>r \<in> set ?between. arrival r - completion (request firstKey 0 ''first'') \<le> cacheTtl"
    by (simp add: request_def cacheTtl_def)
  have "otherKeys firstKey ?between \<subseteq> {keyOf 7}"
    by (auto simp: otherKeys_def request_def List.map_filter_simps)
  then have "card (otherKeys firstKey ?between) \<le> card {keyOf 7}"
    by (intro card_mono) simp_all
  then have h8: "card (otherKeys firstKey ?between) < cacheMax"
    by (simp add: cacheMax_def)
  have h9: "header (request firstKey 2 ''again'') = Some firstKey"
    by (simp add: request_def)
  have h10: "arrival (request firstKey 2 ''again'') - completion (request firstKey 0 ''first'')
      \<le> cacheTtl"
    by (simp add: request_def cacheTtl_def)
  from idempotent_replay[OF h1 h2 h3 h4 h5 h6 h7 h8 h9 h10] h1 h2 h4 h8 h10
  show ?thesis
    by (simp add: request_def)
qed

text \<open>
  The claim as stated fails when 500 requests under 500 other keys are recorded between
  the two: the entry of the first key is evicted, and the request that presents it again,
  two milliseconds after the recording and far inside the hour, reaches the handler and
  gets its new answer.
\<close>

theorem eviction_counterexample:
  "isUuidV4 firstKey \<and>
   fst (serve [] (request firstKey 0 ''first'')) =
     \<lparr> sentStatus = 201, sentBody = Json ''first'', handlerInvoked = True \<rparr> \<and>
   arrival (request firstKey 2 ''again'') - completion (request firstKey 0 ''first'') \<le> cacheTtl \<and>
   fst (serve (serveAll (snd (serve [] (request firstKey 0 ''first''))) flood)
        (request firstKey 2 ''again'')) =
     \<lparr> sentStatus = 201, sentBody = Json ''again'', handlerInvoked = True \<rparr>"
proof -
  have v: "isUuidV4 firstKey"
    by (simp add: isUuidV4_def firstKey_def isHex_def)
  have s1: "serve [] (request firstKey 0 ''first'') =
      (\<lparr> sentStatus = 201, sentBody = Json ''first'', handlerInvoked = True \<rparr>,
       [(firstKey, (201, ''first''), 0)])"
    using v by (simp add: serve_fresh cacheMax_def)
  let ?ks = "map keyOf [0..<500]"
  have d: "distinct ?ks"
    by (auto simp: distinct_map intro!: inj_onI keyOf_inj)
  have ne: "keyOf n \<noteq> firstKey" for n
    by (simp add: keyOf_def firstKey_def)
  have fr: "\<forall>k \<in> set ?ks. isUuidV4 k \<and> k \<notin> fst ` set [(firstKey, (201, ''first''), 0::int)]"
    by (auto simp: isUuidV4_keyOf ne)
  have fl: "flood = map (\<lambda>k. request k 1 ''other'') ?ks"
    by (simp add: flood_def)
  have "serveAll [(firstKey, (201, ''first''), 0)] flood =
          take cacheMax (rev (map (\<lambda>k. (k, (201, ''other''), 1)) ?ks) @
                           [(firstKey, (201, ''first''), 0)])"
    unfolding fl using d fr by (rule serveAll_flood) (simp add: cacheMax_def)
  also have "\<dots> = rev (map (\<lambda>k. (k, (201, ''other''), 1)) ?ks)"
    by (simp add: cacheMax_def)
  finally have c: "serveAll [(firstKey, (201, ''first''), 0)] flood =
      rev (map (\<lambda>k. (k, (201, ''other''), 1)) ?ks)" .
  have "firstKey \<notin> fst ` set (serveAll [(firstKey, (201, ''first''), 0)] flood)"
    unfolding c using ne[symmetric] by (auto simp: image_iff)
  from serve_fresh[OF v this, of 2 "''again''"] s1 v show ?thesis
    by (simp add: request_def cacheTtl_def)
qed

end
